theory Spec2Isabelle
  imports Complex_Main
begin

section \<open>Python values used by the bot\<close>

text \<open>
  A Python \<open>str\<close> is a sequence of code points, so it is modelled as a list of
  natural numbers; \<open>py\<close> embeds an ASCII literal of the source. Slicing and
  \<open>len\<close> then count what Python counts.

  A Python \<open>float\<close> is modelled by the rational number it denotes and float
  arithmetic by exact rational arithmetic: rounding to binary64, infinities and
  NaN are outside the model. Division by zero raises, as in Python.
\<close>

type_synonym pystr = "nat list"

definition py :: "string \<Rightarrow> pystr" where
  "py s = map of_char s"

datatype py_exn =
  ZeroDivisionError | UnicodeDecodeError | Forbidden | HTTPException | OtherException

text \<open>\<open>int(x)\<close> on a float truncates toward zero.\<close>

definition py_int :: "rat \<Rightarrow> int" where
  "py_int x = (if 0 \<le> x then \<lfloor>x\<rfloor> else \<lceil>x\<rceil>)"

text \<open>The slice \<open>xs[:n]\<close>: a negative \<open>n\<close> counts from the end.\<close>

definition py_slice_to :: "int \<Rightarrow> 'a list \<Rightarrow> 'a list" where
  "py_slice_to n xs =
     (if 0 \<le> n then take (nat n) xs else take (nat (int (length xs) + n)) xs)"

text \<open>\<open>p.rfind(c)\<close>: the last index of \<open>c\<close>, or \<open>-1\<close>.\<close>

fun rfind_from :: "'a \<Rightarrow> 'a list \<Rightarrow> int \<Rightarrow> int \<Rightarrow> int" where
  "rfind_from c [] i best = best"
| "rfind_from c (x # xs) i best = rfind_from c xs (i + 1) (if x = c then i else best)"

definition rfind :: "'a \<Rightarrow> 'a list \<Rightarrow> int" where
  "rfind c p = rfind_from c p 0 (- 1)"

text \<open>
  \<open>os.path.splitext\<close> of the standard library (POSIX flavour): the extension
  starts at the last dot of the last path component, unless that component
  consists of leading dots only up to there.
\<close>

definition splitext :: "pystr \<Rightarrow> pystr \<times> pystr" where
  "splitext p =
     (let sepIndex = rfind (of_char CHR ''/'') p;
          dotIndex = rfind (of_char CHR ''.'') p
      in if dotIndex > sepIndex \<and>
            list_ex (\<lambda>c. c \<noteq> of_char CHR ''.'')
              (take (nat (dotIndex - (sepIndex + 1))) (drop (nat (sepIndex + 1)) p))
         then (take (nat dotIndex) p, drop (nat dotIndex) p)
         else (p, []))"

section \<open>The local file system\<close>

text \<open>
  A file has a size in bytes and a content, abstracted to a number. The file
  system maps a path to the file stored there. \<open>os.path.exists\<close>,
  \<open>os.remove\<close> and \<open>os.path.getsize\<close> act on this map; the disk itself is
  taken to be reliable (removing an existing file succeeds).
\<close>

datatype disk_file = File (fsize: nat) (fdata: nat)

type_synonym fs = "pystr \<rightharpoonup> disk_file"

definition os_path_exists :: "fs \<Rightarrow> pystr \<Rightarrow> bool" where
  "os_path_exists d p = (d p \<noteq> None)"

definition os_remove :: "fs \<Rightarrow> pystr \<Rightarrow> fs" where
  "os_remove d p = d(p := None)"

section \<open>utils/compressor.py\<close>

subsection \<open>Bitrate plan\<close>

record level =
  video_bitrate :: int
  crf :: int
  preset :: string

definition safety_margin :: rat where
  "safety_margin = 85 / 100"

text \<open>
  \<open>target_bitrate = int((target_size_bytes * 8 * safety_margin) / duration)\<close>.
  The statement is outside every \<open>try\<close> of \<open>compress_video\<close>.
\<close>

definition target_bitrate :: "int \<Rightarrow> rat \<Rightarrow> py_exn + int" where
  "target_bitrate target_size_bytes duration =
     (if duration = 0 then Inl ZeroDivisionError
      else Inr (py_int ((of_int (target_size_bytes * 8) * safety_margin) / duration)))"

definition compression_levels :: "int \<Rightarrow> level list" where
  "compression_levels tb =
     [\<lparr>video_bitrate = tb, crf = 28, preset = ''medium''\<rparr>,
      \<lparr>video_bitrate = py_int (of_int tb * (8 / 10)), crf = 32, preset = ''fast''\<rparr>,
      \<lparr>video_bitrate = py_int (of_int tb * (6 / 10)), crf = 35, preset = ''veryfast''\<rparr>]"

subsection \<open>The probe and the encode tool\<close>

text \<open>
  \<open>ffmpeg.probe(input_path)\<close> either raises (\<open>None\<close>) or returns the metadata,
  of which the code reads two fields of the \<open>format\<close> section. A field is
  \<open>None\<close> when the key is absent or its text does not convert
  (\<open>float(...)\<close>, \<open>int(...)\<close> raise).
\<close>

record format_info =
  duration_field :: "rat option"
  size_field :: "int option"

type_synonym probe = "pystr \<Rightarrow> format_info option"

text \<open>
  \<open>ffmpeg.run\<close> is called once per attempt with the attempt's number, the
  input path, the output path and the settings. The tool may leave a file at the
  output path (complete, or partial when it fails) and may raise
  \<open>ffmpeg.Error\<close> or another exception. It writes to no other path.

  An \<open>ffmpeg.Error\<close> carries the captured standard error of the tool: nothing
  (absent or empty), bytes that are valid UTF-8, or bytes that are not. The
  handler of the error calls \<open>e.stderr.decode()\<close> when there are bytes.
\<close>

datatype stderr_bytes = Utf8 | NotUtf8

datatype run_exn = FfmpegError "stderr_bytes option" | UnexpectedError

record run_outcome =
  raised :: "run_exn option"
  written :: "disk_file option"

type_synonym ffmpeg_run = "nat \<Rightarrow> pystr \<Rightarrow> pystr \<Rightarrow> level \<Rightarrow> run_outcome"

text \<open>
  What \<open>compress_video\<close> does is recorded as a trace of events, each with the
  file system after it.
\<close>

datatype event =
    LogProbeFailed
  | Remove pystr
  | FfmpegRun nat pystr pystr level
  | LogSuccess nat
  | LogTooLarge nat
  | LogFfmpegError nat
  | LogUnexpectedError nat
  | LogExhausted

type_synonym trace = "(event \<times> fs) list"

subsection \<open>\<open>compress_video\<close>\<close>

definition output_path_of :: "pystr \<Rightarrow> pystr" where
  "output_path_of input_path =
     (case splitext input_path of (base, ext) \<Rightarrow> base @ py ''_compressed'' @ ext)"

text \<open>\<open>if os.path.exists(output_path): os.remove(output_path)\<close>\<close>

definition remove_if_exists :: "fs \<Rightarrow> pystr \<Rightarrow> fs \<times> trace" where
  "remove_if_exists d p =
     (if os_path_exists d p then (os_remove d p, [(Remove p, os_remove d p)]) else (d, []))"

text \<open>
  The body of the \<open>for\<close> loop for one attempt. The result is \<open>Inr True\<close>
  when the body returned \<open>output_path\<close> and \<open>Inr False\<close> when the loop goes
  on, which it does after either \<open>except\<close> clause has logged the failure. The
  clause for \<open>ffmpeg.Error\<close> logs
  \<open>e.stderr.decode() if e.stderr else str(e)\<close>: when the bytes are not valid
  UTF-8, \<open>decode\<close> raises \<open>UnicodeDecodeError\<close> inside the handler, which no
  other clause of the same \<open>try\<close> catches (\<open>Inl\<close>).
\<close>

definition attempt ::
  "ffmpeg_run \<Rightarrow> pystr \<Rightarrow> pystr \<Rightarrow> int \<Rightarrow> fs \<Rightarrow> nat \<Rightarrow> level \<Rightarrow> (py_exn + bool) \<times> fs \<times> trace" where
  "attempt run input_path output_path target_size_bytes d k settings =
     (case remove_if_exists d output_path of
        (d1, t1) \<Rightarrow>
          (let r = run k input_path output_path settings;
               d2 = (case written r of None \<Rightarrow> d1 | Some f \<Rightarrow> d1(output_path \<mapsto> f));
               t2 = t1 @ [(FfmpegRun k input_path output_path settings, d2)]
           in (case raised r of
                 Some (FfmpegError stderr) \<Rightarrow>
                   (case stderr of
                      Some NotUtf8 \<Rightarrow> (Inl UnicodeDecodeError, d2, t2)
                    | Some Utf8 \<Rightarrow> (Inr False, d2, t2 @ [(LogFfmpegError k, d2)])
                    | None \<Rightarrow> (Inr False, d2, t2 @ [(LogFfmpegError k, d2)]))
               | Some UnexpectedError \<Rightarrow> (Inr False, d2, t2 @ [(LogUnexpectedError k, d2)])
               | None \<Rightarrow>
                   (case d2 output_path of
                      None \<Rightarrow> (Inr False, d2, t2)
                    | Some f \<Rightarrow>
                        if int (fsize f) \<le> target_size_bytes
                        then (Inr True, d2, t2 @ [(LogSuccess k, d2)])
                        else (Inr False, d2, t2 @ [(LogTooLarge k, d2)])))))"

text \<open>
  \<open>for attempt, settings in enumerate(compression_levels[:max_attempts], 1)\<close>:
  the result is \<open>Inr (Some output_path)\<close> when an attempt returned,
  \<open>Inr None\<close> when the loop ran to its end, and \<open>Inl\<close> the exception that
  left an attempt.
\<close>

fun compress_loop ::
  "ffmpeg_run \<Rightarrow> pystr \<Rightarrow> pystr \<Rightarrow> int \<Rightarrow> fs \<Rightarrow> nat \<Rightarrow> level list \<Rightarrow>
     (py_exn + pystr option) \<times> fs \<times> trace" where
  "compress_loop run input_path output_path target_size_bytes d k [] = (Inr None, d, [])"
| "compress_loop run input_path output_path target_size_bytes d k (settings # rest) =
     (case attempt run input_path output_path target_size_bytes d k settings of
        (Inl e, d', t) \<Rightarrow> (Inl e, d', t)
      | (Inr True, d', t) \<Rightarrow> (Inr (Some output_path), d', t)
      | (Inr False, d', t) \<Rightarrow>
          (case compress_loop run input_path output_path target_size_bytes d' (Suc k) rest of
             (res, d'', t') \<Rightarrow> (res, d'', t @ t')))"

definition compress_video ::
  "probe \<Rightarrow> ffmpeg_run \<Rightarrow> fs \<Rightarrow> pystr \<Rightarrow> int \<Rightarrow> int \<Rightarrow> (py_exn + pystr option) \<times> fs \<times> trace" where
  "compress_video probe run d input_path target_size_bytes max_attempts =
     (let output_path = output_path_of input_path in
      case probe input_path of
        None \<Rightarrow> (Inr None, d, [(LogProbeFailed, d)])
      | Some fmt \<Rightarrow>
          (case duration_field fmt of
             None \<Rightarrow> (Inr None, d, [(LogProbeFailed, d)])
           | Some duration \<Rightarrow>
               (case size_field fmt of
                  None \<Rightarrow> (Inr None, d, [(LogProbeFailed, d)])
                | Some current_size \<Rightarrow>
                    (case target_bitrate target_size_bytes duration of
                       Inl e \<Rightarrow> (Inl e, d, [])
                     | Inr tb \<Rightarrow>
                         (case compress_loop run input_path output_path target_size_bytes d 1
                                 (py_slice_to max_attempts (compression_levels tb)) of
                            (Inl e, d', t) \<Rightarrow> (Inl e, d', t)
                          | (Inr (Some p), d', t) \<Rightarrow> (Inr (Some p), d', t)
                          | (Inr None, d', t) \<Rightarrow>
                              (case remove_if_exists d' output_path of
                                 (d'', t') \<Rightarrow> (Inr None, d'', t @ [(LogExhausted, d')] @ t')))))))"

text \<open>
  An outcome of the encode tool fits the budget when the tool returned normally
  and left a file of at most \<open>target_size_bytes\<close> bytes.
\<close>

definition fits :: "int \<Rightarrow> run_outcome \<Rightarrow> bool" where
  "fits target_size_bytes r =
     (raised r = None \<and>
      (case written r of None \<Rightarrow> False | Some f \<Rightarrow> int (fsize f) \<le> target_size_bytes))"

text \<open>
  An outcome makes the handler of \<open>ffmpeg.Error\<close> raise when the error carries
  bytes that are not valid UTF-8.
\<close>

definition escapes :: "run_outcome \<Rightarrow> bool" where
  "escapes r = (raised r = Some (FfmpegError (Some NotUtf8)))"

text \<open>The disk after one attempt: the output path holds what the tool left.\<close>

definition after_run :: "fs \<Rightarrow> pystr \<Rightarrow> run_outcome \<Rightarrow> fs" where
  "after_run d out r = (case written r of None \<Rightarrow> d(out := None) | Some f \<Rightarrow> d(out \<mapsto> f))"

text \<open>The numbers of the attempts for which the encode tool was invoked.\<close>

fun attempts_run :: "trace \<Rightarrow> nat list" where
  "attempts_run [] = []"
| "attempts_run ((FfmpegRun k i out l, s) # t) = k # attempts_run t"
| "attempts_run (_ # t) = attempts_run t"

text \<open>
  The number of rungs the loop iterates over; it depends on \<open>max_attempts\<close>
  only, not on the bitrate.
\<close>

definition attempts_planned :: "int \<Rightarrow> nat" where
  "attempts_planned max_attempts = length (py_slice_to max_attempts (compression_levels 0))"

section \<open>utils/downloader.py\<close>

text \<open>
  \<open>yt_dlp\<close> is given the URL and the file system; it either raises
  (\<open>DownloadError\<close> or another exception) or returns the path it prepared and
  the title (\<open>info.get('title', 'Unknown')\<close>), and it may have changed the
  file system either way.
\<close>

datatype ytdl_exn = DownloadError | YtdlUnexpected

type_synonym ytdl = "pystr \<Rightarrow> fs \<Rightarrow> (ytdl_exn + pystr \<times> pystr) \<times> fs"

record video_info =
  filepath :: pystr
  filesize :: int
  title :: pystr

text \<open>
  Both \<open>except\<close> clauses return \<open>None\<close>; so does a missing file, since
  \<open>os.path.getsize\<close> raises inside the \<open>try\<close>.
\<close>

definition download_video :: "ytdl \<Rightarrow> fs \<Rightarrow> pystr \<Rightarrow> video_info option \<times> fs" where
  "download_video ydl d url =
     (case ydl url d of
        (Inl e, d') \<Rightarrow> (None, d')
      | (Inr (fp, ttl), d') \<Rightarrow>
          (case d' fp of
             None \<Rightarrow> (None, d')
           | Some f \<Rightarrow> (Some \<lparr>filepath = fp, filesize = int (fsize f), title = ttl\<rparr>, d')))"

definition cleanup_file :: "fs \<Rightarrow> pystr \<Rightarrow> fs" where
  "cleanup_file d p = (if os_path_exists d p then os_remove d p else d)"

section \<open>config.py\<close>

record config =
  MAX_FILE_SIZE :: int
  ENABLE_COMPRESSION :: bool
  MAX_COMPRESSION_ATTEMPTS :: int

definition config :: config where
  "config = \<lparr>MAX_FILE_SIZE = 8 * 1024 * 1024, ENABLE_COMPRESSION = True,
             MAX_COMPRESSION_ATTEMPTS = 3\<rparr>"

section \<open>cogs/video_handler.py\<close>

text \<open>
  Every call to the chat client is made at one place of the source, at most once
  per invocation; the client answers each place with success (\<open>None\<close>) or with
  the exception it raises. \<open>Forbidden\<close> is a subclass of \<open>HTTPException\<close>.
\<close>

datatype call_site =
    ReactDownloading | ReactCompressing
  | ReplyFile | ReactSuccess
  | ReplyUploadHTTPError | ReactUploadHTTPError
  | ReplyUploadUnexpected | ReactUploadUnexpected
  | ReplyDownloadError | ReactDownloadError
  | ReplyTooLarge | ReactTooLarge
  | ReplyCompressionFailed | ReactCompressionFailed

type_synonym discord = "call_site \<Rightarrow> py_exn option"

datatype notification =
    Attachment pystr disk_file
  | DownloadErrorText pystr
  | TooLargeText int
  | CompressionFailedText int
  | UploadFailedText
  | UnexpectedUploadText

datatype phase = SizeCheck | Compressing | Uploading | Finished

datatype outcome =
    Delivered | DownloadFailed | TooLarge | CompressionFailed | UploadFailed
  | Escaped py_exn

text \<open>
  The state of one invocation: the disk, the replies that were sent, the
  reactions that were added (by name: \<open>downloading\<close>, \<open>compressing\<close>,
  \<open>success\<close> and \<open>failed\<close> stand for the four emoji of the source), the
  paths handed to \<open>cleanup_file\<close>, and every state of the disk since the
  download with the phase it belongs to. The states inside \<open>compress_video\<close>,
  up to the one it returns, belong to the phase \<open>Compressing\<close>.
\<close>

record pstate =
  disk :: fs
  replies :: "notification list"
  reactions :: "string list"
  cleanups :: "pystr list"
  snapshots :: "(phase \<times> fs) list"

definition add_reaction :: "discord \<Rightarrow> call_site \<Rightarrow> string \<Rightarrow> pstate \<Rightarrow> py_exn option \<times> pstate" where
  "add_reaction dc site emoji s =
     (case dc site of
        None \<Rightarrow> (None, s\<lparr>reactions := reactions s @ [emoji]\<rparr>)
      | Some e \<Rightarrow> (Some e, s))"

definition reply :: "discord \<Rightarrow> call_site \<Rightarrow> notification \<Rightarrow> pstate \<Rightarrow> py_exn option \<times> pstate" where
  "reply dc site n s =
     (case dc site of
        None \<Rightarrow> (None, s\<lparr>replies := replies s @ [n]\<rparr>)
      | Some e \<Rightarrow> (Some e, s))"

text \<open>\<open>try: await message.add_reaction(...)  except discord.errors.Forbidden: ...\<close>\<close>

definition try_reaction :: "discord \<Rightarrow> call_site \<Rightarrow> string \<Rightarrow> pstate \<Rightarrow> py_exn option \<times> pstate" where
  "try_reaction dc site emoji s =
     (case add_reaction dc site emoji s of
        (None, s') \<Rightarrow> (None, s')
      | (Some e, s') \<Rightarrow> if e = Forbidden then (None, s') else (Some e, s'))"

definition handle_download_error :: "discord \<Rightarrow> pystr \<Rightarrow> pstate \<Rightarrow> py_exn option \<times> pstate" where
  "handle_download_error dc platform s =
     (case reply dc ReplyDownloadError (DownloadErrorText platform) s of
        (Some e, s') \<Rightarrow> (Some e, s')
      | (None, s') \<Rightarrow> try_reaction dc ReactDownloadError ''failed'' s')"

definition handle_file_too_large :: "discord \<Rightarrow> int \<Rightarrow> pstate \<Rightarrow> py_exn option \<times> pstate" where
  "handle_file_too_large dc fsz s =
     (case reply dc ReplyTooLarge (TooLargeText fsz) s of
        (Some e, s') \<Rightarrow> (Some e, s')
      | (None, s') \<Rightarrow> try_reaction dc ReactTooLarge ''failed'' s')"

definition handle_compression_failed :: "discord \<Rightarrow> int \<Rightarrow> pstate \<Rightarrow> py_exn option \<times> pstate" where
  "handle_compression_failed dc fsz s =
     (case reply dc ReplyCompressionFailed (CompressionFailedText fsz) s of
        (Some e, s') \<Rightarrow> (Some e, s')
      | (None, s') \<Rightarrow> try_reaction dc ReactCompressionFailed ''failed'' s')"

text \<open>A call of \<open>cleanup_file\<close>, which never raises.\<close>

definition do_cleanup :: "pystr \<Rightarrow> pstate \<Rightarrow> pstate" where
  "do_cleanup p s = s\<lparr>disk := cleanup_file (disk s) p, cleanups := cleanups s @ [p]\<rparr>"

definition enter :: "phase \<Rightarrow> pstate \<Rightarrow> pstate" where
  "enter ph s = s\<lparr>snapshots := snapshots s @ [(ph, disk s)]\<rparr>"

text \<open>The two \<open>except\<close> clauses of the upload.\<close>

definition upload_http_error :: "discord \<Rightarrow> pstate \<Rightarrow> outcome \<times> pstate" where
  "upload_http_error dc s =
     (case reply dc ReplyUploadHTTPError UploadFailedText s of
        (Some e, s') \<Rightarrow> (Escaped e, s')
      | (None, s') \<Rightarrow>
          (case try_reaction dc ReactUploadHTTPError ''failed'' s' of
             (Some e, s'') \<Rightarrow> (Escaped e, s'')
           | (None, s'') \<Rightarrow> (UploadFailed, s'')))"

definition upload_unexpected :: "discord \<Rightarrow> pstate \<Rightarrow> outcome \<times> pstate" where
  "upload_unexpected dc s =
     (case reply dc ReplyUploadUnexpected UnexpectedUploadText s of
        (Some e, s') \<Rightarrow> (Escaped e, s')
      | (None, s') \<Rightarrow>
          (case try_reaction dc ReactUploadUnexpected ''failed'' s' of
             (Some e, s'') \<Rightarrow> (Escaped e, s'')
           | (None, s'') \<Rightarrow> (UploadFailed, s'')))"

definition upload_except :: "discord \<Rightarrow> py_exn \<Rightarrow> pstate \<Rightarrow> outcome \<times> pstate" where
  "upload_except dc e s =
     (if e = Forbidden \<or> e = HTTPException then upload_http_error dc s
      else upload_unexpected dc s)"

text \<open>
  The \<open>try\<close> \<dots> \<open>finally\<close> that uploads the file at \<open>fp\<close>: an exception raised
  in the body, also by the success reaction when it is not \<open>Forbidden\<close>, goes
  to the \<open>except\<close> clauses; \<open>cleanup_file\<close> runs on every way out.
\<close>

definition upload :: "discord \<Rightarrow> pystr \<Rightarrow> pystr \<Rightarrow> pstate \<Rightarrow> outcome \<times> pstate" where
  "upload dc fp ttl s0 =
     (let s = enter Uploading s0 in
      case (case disk s fp of
              None \<Rightarrow> upload_except dc OtherException s
            | Some f \<Rightarrow>
                (case reply dc ReplyFile (Attachment (take 50 ttl @ py ''.mp4'') f) s of
                   (Some e, s1) \<Rightarrow> upload_except dc e s1
                 | (None, s1) \<Rightarrow>
                     (case try_reaction dc ReactSuccess ''success'' s1 of
                        (Some e, s2) \<Rightarrow> upload_except dc e s2
                      | (None, s2) \<Rightarrow> (Delivered, s2)))) of
        (oc, s3) \<Rightarrow> (oc, enter Finished (do_cleanup fp s3)))"

definition record_compression :: "trace \<Rightarrow> fs \<Rightarrow> pstate \<Rightarrow> pstate" where
  "record_compression t d s =
     s\<lparr>disk := d, snapshots := snapshots s @ map (\<lambda>(e, d'). (Compressing, d')) t\<rparr>"

definition process_video_url ::
  "config \<Rightarrow> discord \<Rightarrow> ytdl \<Rightarrow> probe \<Rightarrow> ffmpeg_run \<Rightarrow> fs \<Rightarrow> pystr \<Rightarrow> pystr \<Rightarrow> outcome \<times> pstate" where
  "process_video_url cfg dc ydl probe run d0 url platform =
     (case try_reaction dc ReactDownloading ''downloading''
             \<lparr>disk = d0, replies = [], reactions = [], cleanups = [], snapshots = []\<rparr> of
        (Some e, s1) \<Rightarrow> (Escaped e, s1)
      | (None, s1) \<Rightarrow>
          (case download_video ydl (disk s1) url of
             (None, d1) \<Rightarrow>
               (case handle_download_error dc platform (s1\<lparr>disk := d1\<rparr>) of
                  (Some e, s2) \<Rightarrow> (Escaped e, s2)
                | (None, s2) \<Rightarrow> (DownloadFailed, s2))
           | (Some video_info, d1) \<Rightarrow>
               (let s2 = enter SizeCheck (s1\<lparr>disk := d1\<rparr>) in
                if filesize video_info > MAX_FILE_SIZE cfg then
                  if ENABLE_COMPRESSION cfg then
                    (case try_reaction dc ReactCompressing ''compressing'' s2 of
                       (Some e, s3) \<Rightarrow> (Escaped e, s3)
                     | (None, s3) \<Rightarrow>
                         (case compress_video probe run (disk s3) (filepath video_info)
                                 (MAX_FILE_SIZE cfg) (MAX_COMPRESSION_ATTEMPTS cfg) of
                            (Inl e, d2, t) \<Rightarrow> (Escaped e, record_compression t d2 s3)
                          | (Inr compressed_path, d2, t) \<Rightarrow>
                              (let s4 = record_compression t d2 s3 in
                               if compressed_path \<noteq> None \<and> compressed_path \<noteq> Some [] then
                                 (let s5 = do_cleanup (filepath video_info) s4 in
                                  case disk s5 (the compressed_path) of
                                    None \<Rightarrow> (Escaped OtherException, s5)
                                  | Some f \<Rightarrow> upload dc (the compressed_path) (title video_info) s5)
                               else
                                 (case handle_compression_failed dc (filesize video_info) s4 of
                                    (Some e, s5) \<Rightarrow> (Escaped e, s5)
                                  | (None, s5) \<Rightarrow>
                                      (CompressionFailed,
                                       enter Finished (do_cleanup (filepath video_info) s5))))))
                  else
                    (case handle_file_too_large dc (filesize video_info) s2 of
                       (Some e, s3) \<Rightarrow> (Escaped e, s3)
                     | (None, s3) \<Rightarrow>
                         (TooLarge, enter Finished (do_cleanup (filepath video_info) s3)))
                else upload dc (filepath video_info) (title video_info) s2)))"

section \<open>Sample environments\<close>

text \<open>
  A 20 MiB download of 30 seconds, and encode tools that fit the 8 MiB budget at
  the second attempt, or never.
\<close>

definition sample_input :: pystr where
  "sample_input = py ''./temp_downloads/abc.mp4''"

definition sample_output :: pystr where
  "sample_output = py ''./temp_downloads/abc_compressed.mp4''"

definition sample_disk :: fs where
  "sample_disk = Map.empty(sample_input \<mapsto> File 20971520 1)"

definition sample_probe :: probe where
  "sample_probe p = Some \<lparr>duration_field = Some 30, size_field = Some 20971520\<rparr>"

definition run_second_fits :: ffmpeg_run where
  "run_second_fits k i out l =
     (if k = 1 then \<lparr>raised = None, written = Some (File 9000000 2)\<rparr>
      else \<lparr>raised = None, written = Some (File 7000000 3)\<rparr>)"

definition run_never_fits :: ffmpeg_run where
  "run_never_fits k i out l =
     (if k = 1 then \<lparr>raised = Some (FfmpegError (Some Utf8)), written = None\<rparr>
      else if k = 2 then \<lparr>raised = None, written = Some (File 9000000 2)\<rparr>
      else \<lparr>raised = Some UnexpectedError, written = Some (File 500 4)\<rparr>)"

text \<open>
  An encode tool whose first run fails with standard error that is not valid
  UTF-8 (for instance a title in Latin-1 that the tool echoes), after
  leaving a partial file of 500 bytes.
\<close>

definition run_bad_stderr :: ffmpeg_run where
  "run_bad_stderr k i out l =
     (if k = 1 then \<lparr>raised = Some (FfmpegError (Some NotUtf8)), written = Some (File 500 4)\<rparr>
      else \<lparr>raised = None, written = Some (File 7000000 3)\<rparr>)"

text \<open>
  Downloads of a small MP4, of a 20 MiB MP4 and of a small WebM file, a chat
  client that accepts every call, and one whose success reaction fails with an
  \<open>HTTPException\<close> that is not \<open>Forbidden\<close>.
\<close>

definition sample_url :: pystr where
  "sample_url = py ''https://www.instagram.com/reel/abc/''"

definition sample_platform :: pystr where
  "sample_platform = py ''Instagram''"

definition sample_webm :: pystr where
  "sample_webm = py ''./temp_downloads/abc.webm''"

definition ydl_small :: ytdl where
  "ydl_small url d = (Inr (sample_input, py ''clip''), d(sample_input \<mapsto> File 1000000 1))"

definition ydl_large :: ytdl where
  "ydl_large url d = (Inr (sample_input, py ''clip''), d(sample_input \<mapsto> File 20971520 1))"

definition ydl_webm :: ytdl where
  "ydl_webm url d = (Inr (sample_webm, py ''clip''), d(sample_webm \<mapsto> File 1000000 1))"

definition discord_ok :: discord where
  "discord_ok site = None"

definition discord_marker_fails :: discord where
  "discord_marker_fails site = (if site = ReactSuccess then Some HTTPException else None)"

section \<open>Evaluation of rational floors\<close>

lemma floor_rat_numeral [simp]:
  "\<lfloor>numeral a / numeral b :: rat\<rfloor> = numeral a div numeral b"
  using floor_divide_of_int_eq [of "numeral a" "numeral b", where ?'a = rat] by simp

lemma floor_rat_neg_numeral [simp]:
  "\<lfloor>- (numeral a / numeral b) :: rat\<rfloor> = - numeral a div numeral b"
  using floor_divide_of_int_eq [of "- numeral a" "numeral b", where ?'a = rat] by simp

lemma ceiling_rat_numeral [simp]:
  "\<lceil>numeral a / numeral b :: rat\<rceil> = - (- numeral a div numeral b)"
  unfolding ceiling_def by simp

lemma ceiling_rat_neg_numeral [simp]:
  "\<lceil>- (numeral a / numeral b) :: rat\<rceil> = - (numeral a div numeral b)"
  unfolding ceiling_def by simp

lemma py_int_nonneg: "0 \<le> x \<Longrightarrow> py_int x = \<lfloor>x\<rfloor>"
  by (simp add: py_int_def)

lemma py_int_scale:
  assumes "0 \<le> t" and "0 \<le> a" and "0 < b"
  shows "py_int (of_int t * (of_int a / of_int b)) = (t * a) div b"
proof -
  have eq: "(of_int t :: rat) * (of_int a / of_int b) = of_int (t * a) / of_int b"
    by simp
  have "0 \<le> (of_int t :: rat) * (of_int a / of_int b)"
    using assms by simp
  then have "py_int (of_int t * (of_int a / of_int b)) = \<lfloor>(of_int t :: rat) * (of_int a / of_int b)\<rfloor>"
    by (rule py_int_nonneg)
  also have "\<dots> = (t * a) div b"
    unfolding eq by (rule floor_divide_of_int_eq)
  finally show ?thesis .
qed

lemma target_bitrate_nonneg:
  assumes "0 \<le> B" and "0 < D" and "target_bitrate B D = Inr tb"
  shows "0 \<le> tb"
proof -
  have "0 \<le> of_int (B * 8) * safety_margin / D"
    using assms by (simp add: safety_margin_def)
  then have "0 \<le> py_int (of_int (B * 8) * safety_margin / D)"
    by (simp add: py_int_def)
  then show ?thesis
    using assms by (simp add: target_bitrate_def split: if_splits)
qed

lemma scale8_le: "(0::int) \<le> t \<Longrightarrow> (t * 8) div 10 \<le> t"
  by arith

lemma scale8_less: "(1::int) \<le> t \<Longrightarrow> (t * 8) div 10 < t"
  by arith

lemma scale6_le: "(0::int) \<le> t \<Longrightarrow> (t * 6) div 10 \<le> (t * 8) div 10"
  by (rule zdiv_mono1) auto

lemma scale6_less:
  assumes "(3::int) \<le> t"
  shows "(t * 6) div 10 < (t * 8) div 10"
proof (cases "5 \<le> t")
  case True
  have "(t * 6) div 10 + 1 = (t * 6 + 10) div 10" by simp
  also have "\<dots> \<le> (t * 8) div 10" using True by (intro zdiv_mono1) auto
  finally show ?thesis by simp
next
  case False
  then have "t = 3 \<or> t = 4" using assms by auto
  then show ?thesis by auto
qed

lemma ladder_bitrates:
  assumes "0 \<le> tb"
  shows "video_bitrate (compression_levels tb ! 0) = tb"
    and "video_bitrate (compression_levels tb ! 1) = (tb * 8) div 10"
    and "video_bitrate (compression_levels tb ! 2) = (tb * 6) div 10"
  using py_int_scale [OF assms, of 8 10] py_int_scale [OF assms, of 6 10]
  by (simp_all add: compression_levels_def)

section \<open>The bitrate plan\<close>

text \<open>
  C3. For a size budget \<open>B \<ge> 0\<close> bytes and a probed duration \<open>D > 0\<close>, the
  bitrate computation succeeds and the video bitrate of the first rung of the
  ladder is \<open>floor (B * 8 * 0.85 / D)\<close>.
\<close>

theorem first_attempt_bitrate:
  assumes "0 \<le> B" and "0 < D"
  shows "\<exists>tb. target_bitrate B D = Inr tb \<and>
           video_bitrate (compression_levels tb ! 0) = \<lfloor>of_int B * 8 * (85 / 100) / D\<rfloor>"
proof -
  have "0 \<le> of_int (B * 8) * safety_margin / D"
    using assms by (simp add: safety_margin_def)
  then have "py_int (of_int (B * 8) * safety_margin / D) = \<lfloor>of_int (B * 8) * safety_margin / D\<rfloor>"
    by (rule py_int_nonneg)
  then show ?thesis
    using assms by (simp add: target_bitrate_def compression_levels_def safety_margin_def)
qed

theorem first_attempt_bitrate_witness:
  "(0::int) \<le> 8388608 \<and> (0::rat) < 7 / 2 \<and>
   target_bitrate 8388608 (7 / 2) = Inr 16297866 \<and>
   video_bitrate (compression_levels 16297866 ! 0) =
     \<lfloor>(of_int 8388608 :: rat) * 8 * (85 / 100) / (7 / 2)\<rfloor>"
  using first_attempt_bitrate [of 8388608 "7 / 2"]
  by (simp add: target_bitrate_def compression_levels_def safety_margin_def py_int_def)

text \<open>
  C6, as stated, fails: for a budget of 1 byte and a duration of 10 seconds the
  first bitrate is \<open>int(0.68) = 0\<close> and the second \<open>int(0 * 0.8) = 0\<close>, which
  is not strictly smaller.
\<close>

theorem bitrate_ladder_not_strict:
  "target_bitrate 1 10 = Inr 0 \<and>
   \<not> video_bitrate (compression_levels 0 ! 1) < video_bitrate (compression_levels 0 ! 0)"
  by (simp add: target_bitrate_def compression_levels_def safety_margin_def py_int_def)

text \<open>
  C6, amended. For a budget \<open>B \<ge> 0\<close> and a duration \<open>D > 0\<close> the planned video
  bitrate never increases from one attempt to the next, and it strictly
  decreases from attempt 1 to 2 to 3 whenever the first attempt's bitrate is at
  least 3 bits per second (truncation to integers merges the rungs below that).
\<close>

theorem bitrate_ladder_decreasing:
  assumes "0 \<le> B" and "0 < D" and "target_bitrate B D = Inr tb"
  shows "video_bitrate (compression_levels tb ! 1) \<le> video_bitrate (compression_levels tb ! 0) \<and>
         video_bitrate (compression_levels tb ! 2) \<le> video_bitrate (compression_levels tb ! 1) \<and>
         (3 \<le> tb \<longrightarrow>
            video_bitrate (compression_levels tb ! 1) < video_bitrate (compression_levels tb ! 0) \<and>
            video_bitrate (compression_levels tb ! 2) < video_bitrate (compression_levels tb ! 1))"
proof -
  have nn: "0 \<le> tb" using assms by (rule target_bitrate_nonneg)
  show ?thesis
    unfolding ladder_bitrates [OF nn]
    using scale8_le [OF nn] scale6_le [OF nn] scale8_less [of tb] scale6_less [of tb]
    by simp
qed

theorem bitrate_ladder_decreasing_witness:
  "(0::int) \<le> 8388608 \<and> (0::rat) < 7 / 2 \<and> target_bitrate 8388608 (7 / 2) = Inr 16297866 \<and>
   map video_bitrate (compression_levels 16297866) = [16297866, 13038292, 9778719] \<and>
   video_bitrate (compression_levels 16297866 ! 1) < video_bitrate (compression_levels 16297866 ! 0) \<and>
   video_bitrate (compression_levels 16297866 ! 2) < video_bitrate (compression_levels 16297866 ! 1)"
  using bitrate_ladder_decreasing [of 8388608 "7 / 2" 16297866]
  by (simp add: target_bitrate_def compression_levels_def safety_margin_def py_int_def)

section \<open>The compression loop\<close>

lemma splitext_append: "fst (splitext p) @ snd (splitext p) = p"
  by (simp add: splitext_def Let_def)

lemma output_path_of_eq:
  "output_path_of p = fst (splitext p) @ py ''_compressed'' @ snd (splitext p)"
  by (simp add: output_path_of_def split: prod.split)

lemma length_output_path_of: "length (output_path_of p) = length p + 11"
proof -
  have "length (output_path_of p) = length (fst (splitext p) @ snd (splitext p)) + 11"
    by (simp add: output_path_of_eq py_def)
  then show ?thesis by (simp only: splitext_append)
qed

lemma output_path_of_neq: "output_path_of p \<noteq> p"
  using length_output_path_of [of p] by auto

lemma output_path_of_nonempty: "output_path_of p \<noteq> []"
  using length_output_path_of [of p] by auto

lemma remove_if_exists_disk: "fst (remove_if_exists d p) = d(p := None)"
  by (auto simp: remove_if_exists_def os_path_exists_def os_remove_def)

lemma remove_if_exists_trace:
  "(e, s) \<in> set (snd (remove_if_exists d p)) \<Longrightarrow> e = Remove p \<and> s = d(p := None)"
  by (auto simp: remove_if_exists_def os_path_exists_def os_remove_def split: if_splits)

lemma fits_not_escapes: "fits tgt r \<Longrightarrow> \<not> escapes r"
  by (simp add: fits_def escapes_def)

lemma attempt_eq:
  "\<exists>t. attempt run inp out tgt d k l =
     (if escapes (run k inp out l) then Inl UnicodeDecodeError
      else Inr (fits tgt (run k inp out l)), after_run d out (run k inp out l), t) \<and>
     attempts_run t = [k] \<and>
     (\<forall>e s. (e, s) \<in> set t \<longrightarrow> (\<forall>p. p \<noteq> out \<longrightarrow> s p = d p)) \<and>
     (\<forall>j i out' l' s. (FfmpegRun j i out' l', s) \<in> set t \<longrightarrow> j = k \<and> i = inp \<and> out' = out \<and> l' = l) \<and>
     (\<forall>p s. (Remove p, s) \<in> set t \<longrightarrow> p = out) \<and>
     (\<exists>s. (FfmpegRun k inp out l, s) \<in> set t) \<and>
     (\<forall>b. raised (run k inp out l) = Some (FfmpegError b) \<and> b \<noteq> Some NotUtf8 \<longrightarrow>
          LogFfmpegError k \<in> fst ` set t) \<and>
     (raised (run k inp out l) = Some UnexpectedError \<longrightarrow> LogUnexpectedError k \<in> fst ` set t)"
  by (cases "raised (run k inp out l)"; cases "written (run k inp out l)")
     (auto simp: attempt_def fits_def escapes_def after_run_def remove_if_exists_def
        os_path_exists_def os_remove_def Let_def
        split: run_exn.splits option.splits stderr_bytes.splits)

lemma attempts_run_append: "attempts_run (a @ b) = attempts_run a @ attempts_run b"
  by (induction a rule: attempts_run.induct) simp_all

lemma attempts_run_iff:
  "j \<in> set (attempts_run t) \<longleftrightarrow> (\<exists>i out l s. (FfmpegRun j i out l, s) \<in> set t)"
  by (induction t rule: attempts_run.induct) auto

lemma compress_loop_Cons:
  "compress_loop run inp out tgt d k (l # ls) =
     (case attempt run inp out tgt d k l of
        (b, d1, t1) \<Rightarrow>
          (case b of
             Inl e \<Rightarrow> (Inl e, d1, t1)
           | Inr found \<Rightarrow>
               if found then (Inr (Some out), d1, t1)
               else (case compress_loop run inp out tgt d1 (Suc k) ls of
                       (res, d2, t2) \<Rightarrow> (res, d2, t1 @ t2))))"
  by (simp split: prod.splits sum.splits bool.splits)

lemma attempt_props:
  assumes "attempt run inp out tgt d k l = (b, d1, t1)"
  shows "b = (if escapes (run k inp out l) then Inl UnicodeDecodeError
              else Inr (fits tgt (run k inp out l)))"
    and "d1 = after_run d out (run k inp out l)"
    and "attempts_run t1 = [k]"
    and "\<And>e s p. (e, s) \<in> set t1 \<Longrightarrow> p \<noteq> out \<Longrightarrow> s p = d p"
    and "\<And>j i out' l' s. (FfmpegRun j i out' l', s) \<in> set t1 \<Longrightarrow>
           j = k \<and> i = inp \<and> out' = out \<and> l' = l"
    and "\<And>p s. (Remove p, s) \<in> set t1 \<Longrightarrow> p = out"
    and "\<exists>s. (FfmpegRun k inp out l, s) \<in> set t1"
    and "\<And>b. raised (run k inp out l) = Some (FfmpegError b) \<Longrightarrow> b \<noteq> Some NotUtf8 \<Longrightarrow>
           LogFfmpegError k \<in> fst ` set t1"
    and "raised (run k inp out l) = Some UnexpectedError \<Longrightarrow> LogUnexpectedError k \<in> fst ` set t1"
proof -
  obtain t where t: "attempt run inp out tgt d k l =
     (if escapes (run k inp out l) then Inl UnicodeDecodeError
      else Inr (fits tgt (run k inp out l)), after_run d out (run k inp out l), t)"
     "attempts_run t = [k]"
     "\<forall>e s. (e, s) \<in> set t \<longrightarrow> (\<forall>p. p \<noteq> out \<longrightarrow> s p = d p)"
     "\<forall>j i out' l' s. (FfmpegRun j i out' l', s) \<in> set t \<longrightarrow> j = k \<and> i = inp \<and> out' = out \<and> l' = l"
     "\<forall>p s. (Remove p, s) \<in> set t \<longrightarrow> p = out"
     "\<exists>s. (FfmpegRun k inp out l, s) \<in> set t"
     "\<forall>b. raised (run k inp out l) = Some (FfmpegError b) \<and> b \<noteq> Some NotUtf8 \<longrightarrow>
          LogFfmpegError k \<in> fst ` set t"
     "raised (run k inp out l) = Some UnexpectedError \<longrightarrow> LogUnexpectedError k \<in> fst ` set t"
    using attempt_eq [of run inp out tgt d k l] by blast
  from t(1) assms have eq: "b = (if escapes (run k inp out l) then Inl UnicodeDecodeError
              else Inr (fits tgt (run k inp out l)))"
    "d1 = after_run d out (run k inp out l)" "t1 = t" by simp_all
  show "b = (if escapes (run k inp out l) then Inl UnicodeDecodeError
              else Inr (fits tgt (run k inp out l)))" by (rule eq(1))
  show "d1 = after_run d out (run k inp out l)" by (rule eq(2))
  show "attempts_run t1 = [k]" using t(2) eq(3) by simp
  show "\<And>e s p. (e, s) \<in> set t1 \<Longrightarrow> p \<noteq> out \<Longrightarrow> s p = d p" using t(3) eq(3) by blast
  show "\<And>j i out' l' s. (FfmpegRun j i out' l', s) \<in> set t1 \<Longrightarrow>
           j = k \<and> i = inp \<and> out' = out \<and> l' = l" using t(4) eq(3) by blast
  show "\<And>p s. (Remove p, s) \<in> set t1 \<Longrightarrow> p = out" using t(5) eq(3) by blast
  show "\<exists>s. (FfmpegRun k inp out l, s) \<in> set t1" using t(6) eq(3) by blast
  show "\<And>b. raised (run k inp out l) = Some (FfmpegError b) \<Longrightarrow> b \<noteq> Some NotUtf8 \<Longrightarrow>
           LogFfmpegError k \<in> fst ` set t1"
    using t(7) eq(3) by blast
  show "raised (run k inp out l) = Some UnexpectedError \<Longrightarrow> LogUnexpectedError k \<in> fst ` set t1"
    using t(8) eq(3) by blast
qed

lemma after_run_frame: "p \<noteq> out \<Longrightarrow> after_run d out r p = d p"
  by (simp add: after_run_def split: option.splits)

lemma after_run_out: "after_run d out r out = written r"
  by (simp add: after_run_def split: option.splits)

lemma loop_ConsE:
  assumes "compress_loop run inp out tgt d k (l # ls) = (res, d', t)"
  obtains (found) "fits tgt (run k inp out l)" and "res = Inr (Some out)"
      and "d' = after_run d out (run k inp out l)"
      and "attempt run inp out tgt d k l = (Inr True, d', t)"
    | (continue) t1 t2 where "\<not> fits tgt (run k inp out l)"
      and "attempt run inp out tgt d k l = (Inr False, after_run d out (run k inp out l), t1)"
      and "compress_loop run inp out tgt (after_run d out (run k inp out l)) (Suc k) ls = (res, d', t2)"
      and "t = t1 @ t2"
      and "\<not> escapes (run k inp out l)"
    | (escaped) "escapes (run k inp out l)" and "res = Inl UnicodeDecodeError"
      and "d' = after_run d out (run k inp out l)"
      and "attempt run inp out tgt d k l = (Inl UnicodeDecodeError, d', t)"
proof -
  obtain b d1 t1 where a: "attempt run inp out tgt d k l = (b, d1, t1)"
    by (cases "attempt run inp out tgt d k l") auto
  note p = attempt_props(1,2) [OF a]
  show thesis
  proof (cases "escapes (run k inp out l)")
    case True
    with a p assms show thesis by (intro escaped) (auto simp: compress_loop_Cons)
  next
    case ne: False
    show thesis
    proof (cases "fits tgt (run k inp out l)")
      case True
      with ne a p assms show thesis by (intro found) (auto simp: compress_loop_Cons)
    next
      case False
      obtain res2 d2 t2 where r: "compress_loop run inp out tgt d1 (Suc k) ls = (res2, d2, t2)"
        by (cases "compress_loop run inp out tgt d1 (Suc k) ls") auto
      with False ne a p assms show thesis
        by (intro continue [of t1 t2]) (auto simp: compress_loop_Cons)
    qed
  qed
qed

lemma loop_frame:
  "compress_loop run inp out tgt d k ls = (res, d', t) \<Longrightarrow> p \<noteq> out \<Longrightarrow> d' p = d p"
proof (induction ls arbitrary: d k t)
  case Nil
  then show ?case by simp
next
  case (Cons l ls)
  from Cons.prems(1) show ?case
  proof (cases rule: loop_ConsE)
    case found
    then show ?thesis using Cons.prems(2) by (simp add: after_run_frame)
  next
    case (continue t1 t2)
    from Cons.IH [OF continue(3) Cons.prems(2)] show ?thesis
      using Cons.prems(2) by (simp add: after_run_frame)
  next
    case escaped
    then show ?thesis using Cons.prems(2) by (simp add: after_run_frame)
  qed
qed

lemma loop_trace_frame:
  "compress_loop run inp out tgt d k ls = (res, d', t) \<Longrightarrow> (e, s) \<in> set t \<Longrightarrow>
   p \<noteq> out \<Longrightarrow> s p = d p"
proof (induction ls arbitrary: d k t)
  case Nil
  then show ?case by simp
next
  case (Cons l ls)
  from Cons.prems(1) show ?case
  proof (cases rule: loop_ConsE)
    case found
    from attempt_props(4) [OF found(4) Cons.prems(2,3)] show ?thesis .
  next
    case (continue t1 t2)
    from Cons.prems(2) continue(4) consider "(e, s) \<in> set t1" | "(e, s) \<in> set t2" by auto
    then show ?thesis
    proof cases
      case 1
      from attempt_props(4) [OF continue(2) 1 Cons.prems(3)] show ?thesis .
    next
      case 2
      from Cons.IH [OF continue(3) 2 Cons.prems(3)] show ?thesis
        using Cons.prems(3) by (simp add: after_run_frame)
    qed
  next
    case escaped
    from attempt_props(4) [OF escaped(4) Cons.prems(2,3)] show ?thesis .
  qed
qed

lemma loop_result:
  "compress_loop run inp out tgt d k ls = (res, d', t) \<Longrightarrow>
   res = Inr None \<or> res = Inr (Some out) \<or> res = Inl UnicodeDecodeError"
proof (induction ls arbitrary: d k t)
  case Nil
  then show ?case by simp
next
  case (Cons l ls)
  from Cons.prems(1) show ?case
  proof (cases rule: loop_ConsE)
    case found
    then show ?thesis by simp
  next
    case (continue t1 t2)
    from Cons.IH [OF continue(3)] show ?thesis .
  next
    case escaped
    then show ?thesis by simp
  qed
qed

lemma loop_run_events:
  "compress_loop run inp out tgt d k ls = (res, d', t) \<Longrightarrow>
   (FfmpegRun j i out' l', s) \<in> set t \<Longrightarrow>
   k \<le> j \<and> j < k + length ls \<and> i = inp \<and> out' = out \<and> l' = ls ! (j - k)"
proof (induction ls arbitrary: d k t)
  case Nil
  then show ?case by simp
next
  case (Cons l ls)
  from Cons.prems(1) show ?case
  proof (cases rule: loop_ConsE)
    case found
    from attempt_props(5) [OF found(4) Cons.prems(2)] show ?thesis by simp
  next
    case (continue t1 t2)
    from Cons.prems(2) continue(4)
    consider "(FfmpegRun j i out' l', s) \<in> set t1" | "(FfmpegRun j i out' l', s) \<in> set t2" by auto
    then show ?thesis
    proof cases
      case 1
      from attempt_props(5) [OF continue(2) 1] show ?thesis by simp
    next
      case 2
      from Cons.IH [OF continue(3) 2]
      have h: "Suc k \<le> j" "j < Suc k + length ls" "i = inp" "out' = out" "l' = ls ! (j - Suc k)"
        by simp_all
      from h(1) have "j - k = Suc (j - Suc k)" by simp
      then have "(l # ls) ! (j - k) = ls ! (j - Suc k)" by simp
      with h show ?thesis by simp
    qed
  next
    case escaped
    from attempt_props(5) [OF escaped(4) Cons.prems(2)] show ?thesis by simp
  qed
qed

lemma loop_remove_events:
  "compress_loop run inp out tgt d k ls = (res, d', t) \<Longrightarrow> (Remove p, s) \<in> set t \<Longrightarrow> p = out"
proof (induction ls arbitrary: d k t)
  case Nil
  then show ?case by simp
next
  case (Cons l ls)
  from Cons.prems(1) show ?case
  proof (cases rule: loop_ConsE)
    case found
    from attempt_props(6) [OF found(4) Cons.prems(2)] show ?thesis .
  next
    case (continue t1 t2)
    from Cons.prems(2) continue(4) consider "(Remove p, s) \<in> set t1" | "(Remove p, s) \<in> set t2" by auto
    then show ?thesis
    proof cases
      case 1
      from attempt_props(6) [OF continue(2) 1] show ?thesis .
    next
      case 2
      from Cons.IH [OF continue(3) 2] show ?thesis .
    qed
  next
    case escaped
    from attempt_props(6) [OF escaped(4) Cons.prems(2)] show ?thesis .
  qed
qed

lemma loop_success:
  "compress_loop run inp out tgt d k ls = (res, d', t) \<Longrightarrow>
   (FfmpegRun j i out' l', s) \<in> set t \<Longrightarrow> fits tgt (run j i out' l') \<Longrightarrow>
   res = Inr (Some out) \<and> d' out = written (run j i out' l') \<and>
   (\<forall>j' \<in> set (attempts_run t). j' \<le> j)"
proof (induction ls arbitrary: d k t)
  case Nil
  then show ?case by simp
next
  case (Cons l ls)
  from Cons.prems(1) show ?case
  proof (cases rule: loop_ConsE)
    case found
    from attempt_props(5) [OF found(4) Cons.prems(2)]
    have e: "j = k" "i = inp" "out' = out" "l' = l" by simp_all
    show ?thesis
      using found(2,3) attempt_props(3) [OF found(4)] e by (simp add: after_run_out)
  next
    case (continue t1 t2)
    from Cons.prems(2) continue(4)
    consider "(FfmpegRun j i out' l', s) \<in> set t1" | "(FfmpegRun j i out' l', s) \<in> set t2" by auto
    then show ?thesis
    proof cases
      case 1
      from attempt_props(5) [OF continue(2) 1] continue(1) Cons.prems(3) show ?thesis by simp
    next
      case 2
      from loop_run_events [OF continue(3) 2] have "Suc k \<le> j" by simp
      with Cons.IH [OF continue(3) 2 Cons.prems(3)] attempt_props(3) [OF continue(2)] continue(4)
      show ?thesis by (auto simp: attempts_run_append)
    qed
  next
    case escaped
    from attempt_props(5) [OF escaped(4) Cons.prems(2)] escaped(1) Cons.prems(3)
      fits_not_escapes [of tgt "run k inp out l"]
    show ?thesis by simp
  qed
qed

text \<open>An attempt whose handler raises ends the loop with that exception.\<close>

lemma loop_escape:
  "compress_loop run inp out tgt d k ls = (res, d', t) \<Longrightarrow>
   (FfmpegRun j i out' l', s) \<in> set t \<Longrightarrow> escapes (run j i out' l') \<Longrightarrow>
   res = Inl UnicodeDecodeError \<and> d' out = written (run j i out' l') \<and>
   (\<forall>j' \<in> set (attempts_run t). j' \<le> j)"
proof (induction ls arbitrary: d k t)
  case Nil
  then show ?case by simp
next
  case (Cons l ls)
  from Cons.prems(1) show ?case
  proof (cases rule: loop_ConsE)
    case found
    from attempt_props(5) [OF found(4) Cons.prems(2)] found(1) Cons.prems(3)
      fits_not_escapes [of tgt "run k inp out l"]
    show ?thesis by simp
  next
    case (continue t1 t2)
    from Cons.prems(2) continue(4)
    consider "(FfmpegRun j i out' l', s) \<in> set t1" | "(FfmpegRun j i out' l', s) \<in> set t2" by auto
    then show ?thesis
    proof cases
      case 1
      from attempt_props(5) [OF continue(2) 1] continue(5) Cons.prems(3) show ?thesis by simp
    next
      case 2
      from loop_run_events [OF continue(3) 2] have "Suc k \<le> j" by simp
      with Cons.IH [OF continue(3) 2 Cons.prems(3)] attempt_props(3) [OF continue(2)] continue(4)
      show ?thesis by (auto simp: attempts_run_append)
    qed
  next
    case escaped
    from attempt_props(5) [OF escaped(4) Cons.prems(2)]
    have e: "j = k" "i = inp" "out' = out" "l' = l" by simp_all
    show ?thesis
      using escaped(2,3) attempt_props(3) [OF escaped(4)] e by (simp add: after_run_out)
  qed
qed

lemma loop_continue:
  "compress_loop run inp out tgt d k ls = (res, d', t) \<Longrightarrow>
   (FfmpegRun j i out' l', s) \<in> set t \<Longrightarrow> \<not> fits tgt (run j i out' l') \<Longrightarrow>
   \<not> escapes (run j i out' l') \<Longrightarrow>
   Suc j < k + length ls \<Longrightarrow> Suc j \<in> set (attempts_run t)"
proof (induction ls arbitrary: d k t)
  case Nil
  then show ?case by simp
next
  case (Cons l ls)
  from Cons.prems(1) show ?case
  proof (cases rule: loop_ConsE)
    case found
    from attempt_props(5) [OF found(4) Cons.prems(2)] found(1) Cons.prems(3) show ?thesis by simp
  next
    case (continue t1 t2)
    from Cons.prems(2) continue(4)
    consider "(FfmpegRun j i out' l', s) \<in> set t1" | "(FfmpegRun j i out' l', s) \<in> set t2" by auto
    then show ?thesis
    proof cases
      case 1
      from attempt_props(5) [OF continue(2) 1] have jk: "j = k" by simp
      with Cons.prems(5) obtain l2 ls2 where ls: "ls = l2 # ls2" by (cases ls) auto
      from continue(3) [unfolded ls] have "Suc k \<in> set (attempts_run t2)"
      proof (cases rule: loop_ConsE)
        case found
        from attempt_props(3) [OF found(4)] show ?thesis by simp
      next
        case (continue u1 u2)
        from attempt_props(3) [OF continue(2)] continue(4) show ?thesis
          by (simp add: attempts_run_append)
      next
        case escaped
        from attempt_props(3) [OF escaped(4)] show ?thesis by simp
      qed
      with jk continue(4) show ?thesis by (simp add: attempts_run_append)
    next
      case 2
      from Cons.prems(5) have "Suc j < Suc k + length ls" by simp
      from Cons.IH [OF continue(3) 2 Cons.prems(3,4) this] continue(4) show ?thesis
        by (simp add: attempts_run_append)
    qed
  next
    case escaped
    from attempt_props(5) [OF escaped(4) Cons.prems(2)] escaped(1) Cons.prems(4) show ?thesis by simp
  qed
qed

text \<open>
  The loop runs to its end when no executed attempt fits and no handler raises.
\<close>

lemma loop_exhaust:
  "compress_loop run inp out tgt d k ls = (res, d', t) \<Longrightarrow>
   (\<And>j i out' l' s. (FfmpegRun j i out' l', s) \<in> set t \<Longrightarrow>
      \<not> fits tgt (run j i out' l') \<and> \<not> escapes (run j i out' l')) \<Longrightarrow>
   res = Inr None"
proof (induction ls arbitrary: d k t)
  case Nil
  then show ?case by simp
next
  case (Cons l ls)
  from Cons.prems(1) show ?case
  proof (cases rule: loop_ConsE)
    case found
    from attempt_props(7) [OF found(4)] obtain s where "(FfmpegRun k inp out l, s) \<in> set t"
      by blast
    from Cons.prems(2) [OF this] found(1) show ?thesis by simp
  next
    case (continue t1 t2)
    have "\<not> fits tgt (run j i out' l') \<and> \<not> escapes (run j i out' l')"
      if "(FfmpegRun j i out' l', s) \<in> set t2" for j i out' l' s
      using Cons.prems(2) [of j i out' l' s] that continue(4) by simp
    from Cons.IH [OF continue(3) this] show ?thesis .
  next
    case escaped
    from attempt_props(7) [OF escaped(4)] obtain s where "(FfmpegRun k inp out l, s) \<in> set t"
      by blast
    from Cons.prems(2) [OF this] escaped(1) show ?thesis by simp
  qed
qed

lemma loop_logs:
  "compress_loop run inp out tgt d k ls = (res, d', t) \<Longrightarrow>
   (FfmpegRun j i out' l', s) \<in> set t \<Longrightarrow>
   (\<forall>b. raised (run j i out' l') = Some (FfmpegError b) \<and> b \<noteq> Some NotUtf8 \<longrightarrow>
        LogFfmpegError j \<in> fst ` set t) \<and>
   (raised (run j i out' l') = Some UnexpectedError \<longrightarrow> LogUnexpectedError j \<in> fst ` set t)"
proof (induction ls arbitrary: d k t)
  case Nil
  then show ?case by simp
next
  case (Cons l ls)
  from Cons.prems(1) show ?case
  proof (cases rule: loop_ConsE)
    case found
    from attempt_props(5) [OF found(4) Cons.prems(2)] attempt_props(8,9) [OF found(4)]
    show ?thesis by simp
  next
    case (continue t1 t2)
    from Cons.prems(2) continue(4)
    consider "(FfmpegRun j i out' l', s) \<in> set t1" | "(FfmpegRun j i out' l', s) \<in> set t2" by auto
    then show ?thesis
    proof cases
      case 1
      from attempt_props(5) [OF continue(2) 1] attempt_props(8,9) [OF continue(2)] continue(4)
      show ?thesis by auto
    next
      case 2
      from Cons.IH [OF continue(3) 2] continue(4) show ?thesis by auto
    qed
  next
    case escaped
    from attempt_props(5) [OF escaped(4) Cons.prems(2)] attempt_props(8,9) [OF escaped(4)]
    show ?thesis by simp
  qed
qed

section \<open>\<open>compress_video\<close> as a whole\<close>

lemma sample_output_eq: "output_path_of sample_input = sample_output"
  by (simp add: sample_input_def sample_output_def output_path_of_def splitext_def rfind_def py_def)

lemma sample_paths_neq: "sample_input \<noteq> sample_output" "sample_output \<noteq> sample_input"
  by (simp_all add: sample_input_def sample_output_def py_def)

lemma sample_target: "target_bitrate 8388608 30 = Inr 1901417"
  by (simp add: target_bitrate_def safety_margin_def py_int_def)

lemma sample_levels: "py_slice_to 3 (compression_levels 1901417) =
   [\<lparr>video_bitrate = 1901417, crf = 28, preset = ''medium''\<rparr>,
    \<lparr>video_bitrate = 1521133, crf = 32, preset = ''fast''\<rparr>,
    \<lparr>video_bitrate = 1140850, crf = 35, preset = ''veryfast''\<rparr>]"
  by (simp add: py_slice_to_def compression_levels_def py_int_def)

lemma attempts_planned_eq: "length (py_slice_to m (compression_levels tb)) = attempts_planned m"
  by (simp add: attempts_planned_def py_slice_to_def compression_levels_def)

lemma compress_video_cases:
  assumes "compress_video probe run d inp tgt m = (res, d', t)"
  obtains (probe_failed) "res = Inr None" and "d' = d" and "t = [(LogProbeFailed, d)]"
    | (zero_division) "res = Inl ZeroDivisionError" and "d' = d" and "t = []"
    | (fit) D tb fmt where "target_bitrate tgt D = Inr tb"
        and "compress_loop run inp (output_path_of inp) tgt d 1
               (py_slice_to m (compression_levels tb)) = (Inr (Some (output_path_of inp)), d', t)"
        and "res = Inr (Some (output_path_of inp))"
        and "probe inp = Some fmt" and "duration_field fmt = Some D"
    | (exhausted) D tb d1 t1 t2 fmt where "target_bitrate tgt D = Inr tb"
        and "compress_loop run inp (output_path_of inp) tgt d 1
               (py_slice_to m (compression_levels tb)) = (Inr None, d1, t1)"
        and "res = Inr None" and "d' = d1(output_path_of inp := None)"
        and "t = t1 @ [(LogExhausted, d1)] @ t2"
        and "\<And>e s. (e, s) \<in> set t2 \<Longrightarrow> e = Remove (output_path_of inp) \<and> s = d'"
        and "probe inp = Some fmt" and "duration_field fmt = Some D"
    | (handler_raised) D tb fmt where "target_bitrate tgt D = Inr tb"
        and "compress_loop run inp (output_path_of inp) tgt d 1
               (py_slice_to m (compression_levels tb)) = (Inl UnicodeDecodeError, d', t)"
        and "res = Inl UnicodeDecodeError"
        and "probe inp = Some fmt" and "duration_field fmt = Some D"
proof (cases "probe inp")
  case None
  with assms show thesis by (intro probe_failed) (auto simp: compress_video_def)
next
  case (Some fmt)
  show thesis
  proof (cases "duration_field fmt")
    case None
    with Some assms show thesis by (intro probe_failed) (auto simp: compress_video_def)
  next
    case dur: (Some D)
    show thesis
    proof (cases "size_field fmt")
      case None
      with Some dur assms show thesis by (intro probe_failed) (auto simp: compress_video_def)
    next
      case sz: (Some current_size)
      show thesis
      proof (cases "target_bitrate tgt D")
        case (Inl e)
        then have "e = ZeroDivisionError" by (auto simp: target_bitrate_def split: if_splits)
        with Inl Some dur sz assms show thesis
          by (intro zero_division) (auto simp: compress_video_def)
      next
        case (Inr tb)
        obtain r d1 t1 where l: "compress_loop run inp (output_path_of inp) tgt d 1
               (py_slice_to m (compression_levels tb)) = (r, d1, t1)"
          by (cases "compress_loop run inp (output_path_of inp) tgt d 1
               (py_slice_to m (compression_levels tb))") auto
        from loop_result [OF l]
        consider "r = Inr None" | "r = Inr (Some (output_path_of inp))"
          | "r = Inl UnicodeDecodeError" by blast
        then show thesis
        proof cases
          case 1
          obtain d2 t2 where rm: "remove_if_exists d1 (output_path_of inp) = (d2, t2)"
            by (cases "remove_if_exists d1 (output_path_of inp)") auto
          from rm remove_if_exists_disk [of d1 "output_path_of inp"]
          have d2: "d2 = d1(output_path_of inp := None)" by simp
          have t2: "\<And>e s. (e, s) \<in> set t2 \<Longrightarrow> e = Remove (output_path_of inp) \<and> s = d2"
            using remove_if_exists_trace [of _ _ d1 "output_path_of inp"] rm d2 by simp
          from assms Some dur sz Inr l 1 rm
          have "res = Inr None" "d' = d2" "t = t1 @ [(LogExhausted, d1)] @ t2"
            by (auto simp: compress_video_def)
          with Inr l 1 d2 t2 Some dur show thesis
            by (intro exhausted [of D tb d1 t1 t2 fmt]) auto
        next
          case 2
          from assms Some dur sz Inr l 2
          have "res = Inr (Some (output_path_of inp))" "d' = d1" "t = t1"
            by (auto simp: compress_video_def)
          with Inr l 2 Some dur show thesis by (intro fit [of D tb fmt]) auto
        next
          case 3
          from assms Some dur sz Inr l 3
          have "res = Inl UnicodeDecodeError" "d' = d1" "t = t1"
            by (auto simp: compress_video_def)
          with Inr l 3 Some dur show thesis by (intro handler_raised [of D tb fmt]) auto
        qed
      qed
    qed
  qed
qed

section \<open>Properties of the compression engine\<close>

lemma trace_event_cases:
  assumes "e \<in> fst ` set (t1 @ [(LogExhausted, d1)] @ t2)"
    and "\<And>e s. (e, s) \<in> set t2 \<Longrightarrow> e = Remove p \<and> s = d2"
    and "e \<noteq> LogExhausted" and "e \<noteq> Remove p"
  shows "e \<in> fst ` set t1"
  using assms by auto

lemma compress_video_run_event:
  assumes "compress_video probe run d inp tgt m = (res, d', t)"
    and "FfmpegRun k i out l \<in> fst ` set t"
  obtains D tb r d1 t1 s fmt where "target_bitrate tgt D = Inr tb"
    and "compress_loop run inp (output_path_of inp) tgt d 1
           (py_slice_to m (compression_levels tb)) = (r, d1, t1)"
    and "(FfmpegRun k i out l, s) \<in> set t1"
    and "res = r"
    and "r \<noteq> Inr None \<Longrightarrow> d' = d1 \<and> t = t1"
    and "attempts_run t = attempts_run t1"
    and "fst ` set t1 \<subseteq> fst ` set t"
    and "probe inp = Some fmt" and "duration_field fmt = Some D"
  using assms(1)
proof (cases rule: compress_video_cases)
  case probe_failed
  with assms(2) show ?thesis by simp
next
  case zero_division
  with assms(2) show ?thesis by simp
next
  case (fit D tb fmt)
  from assms(2) obtain s where "(FfmpegRun k i out l, s) \<in> set t" by auto
  with fit show ?thesis
    by (intro that [of D tb "Inr (Some (output_path_of inp))" d' t s fmt]) auto
next
  case (handler_raised D tb fmt)
  from assms(2) obtain s where "(FfmpegRun k i out l, s) \<in> set t" by auto
  with handler_raised show ?thesis
    by (intro that [of D tb "Inl UnicodeDecodeError" d' t s fmt]) auto
next
  case (exhausted D tb d1 t1 t2 fmt)
  have "FfmpegRun k i out l \<in> fst ` set t1"
    using assms(2) exhausted(6) unfolding exhausted(5)
    by (rule trace_event_cases) simp_all
  then obtain s where s: "(FfmpegRun k i out l, s) \<in> set t1" by auto
  have "attempts_run t2 = []"
  proof (rule ccontr)
    assume "attempts_run t2 \<noteq> []"
    then obtain j where "j \<in> set (attempts_run t2)" by (cases "attempts_run t2") auto
    then obtain i' o' l' s' where "(FfmpegRun j i' o' l', s') \<in> set t2"
      by (auto simp: attempts_run_iff)
    from exhausted(6) [OF this] show False by simp
  qed
  then have a: "attempts_run t = attempts_run t1"
    unfolding exhausted(5) by (simp add: attempts_run_append)
  have sub: "fst ` set t1 \<subseteq> fst ` set t" unfolding exhausted(5) by auto
  from exhausted s a sub show ?thesis by (intro that [of D tb "Inr None" d1 t1 s fmt]) auto
qed

text \<open>
  The settings handed to the encode tool at attempt \<open>k\<close> are rung \<open>k\<close> of the
  ladder planned from the budget and the probed duration.
\<close>

lemma attempt_settings_from_plan:
  assumes "compress_video probe run d inp tgt m = (res, d', t)"
    and "FfmpegRun k i out l \<in> fst ` set t"
  shows "\<exists>fmt D tb. probe inp = Some fmt \<and> duration_field fmt = Some D \<and>
           target_bitrate tgt D = Inr tb \<and> 1 \<le> k \<and> k \<le> 3 \<and>
           l = compression_levels tb ! (k - 1)"
  using assms
proof (cases rule: compress_video_run_event)
  case (1 D tb r d1 t1 s fmt)
  let ?ls = "py_slice_to m (compression_levels tb)"
  from loop_run_events [OF 1(2,3)]
  have k: "1 \<le> k" "k < 1 + length ?ls" and l: "l = ?ls ! (k - 1)" by simp_all
  have "length ?ls \<le> length (compression_levels tb)"
    unfolding py_slice_to_def by (cases "0 \<le> m") simp_all
  then have len: "length ?ls \<le> 3" by (simp add: compression_levels_def)
  from k have "k - 1 < length ?ls" by simp
  then have "?ls ! (k - 1) = compression_levels tb ! (k - 1)"
    by (simp add: py_slice_to_def split: if_splits)
  with k l len 1(1,8,9) show ?thesis by auto
qed

text \<open>
  C1. A probe that reports a duration of zero is not treated as a probe failure:
  whatever the other inputs, the bitrate computation divides by the duration
  outside every \<open>try\<close>, and \<open>ZeroDivisionError\<close> leaves \<open>compress_video\<close>
  (before any encode attempt and with the disk unchanged) instead of the result
  \<open>None\<close>.
\<close>

theorem zero_duration_raises:
  "compress_video (\<lambda>p. Some \<lparr>duration_field = Some 0, size_field = Some sz\<rparr>) run d inp tgt m =
     (Inl ZeroDivisionError, d, [])"
  by (simp add: compress_video_def target_bitrate_def)

text \<open>
  C4. If the encode tool was invoked for attempt \<open>k\<close>, returned normally and left
  a candidate of at most the budget, then \<open>compress_video\<close> returns the output
  path, which holds that candidate, and no later attempt is executed.
\<close>

theorem first_fit_wins:
  assumes "compress_video probe run d inp tgt m = (res, d', t)"
    and "FfmpegRun k i out l \<in> fst ` set t"
    and "raised (run k i out l) = None"
    and "written (run k i out l) = Some f"
    and "int (fsize f) \<le> tgt"
  shows "res = Inr (Some (output_path_of inp)) \<and> out = output_path_of inp \<and> d' out = Some f \<and>
         Suc k \<notin> set (attempts_run t) \<and> (\<forall>j \<in> set (attempts_run t). j \<le> k)"
  using assms(1,2)
proof (cases rule: compress_video_run_event)
  case (1 D tb r d1 t1 s)
  have fit: "fits tgt (run k i out l)" using assms(3-5) by (simp add: fits_def)
  from loop_run_events [OF 1(2,3)] have out: "out = output_path_of inp" by simp
  from loop_success [OF 1(2,3) fit]
  have r: "r = Inr (Some (output_path_of inp))" and d1: "d1 (output_path_of inp) = Some f"
    and le: "\<forall>j \<in> set (attempts_run t1). j \<le> k"
    using assms(4) by simp_all
  from r have "r \<noteq> Inr None" by simp
  from 1(5) [OF this] have "d' = d1" "t = t1" by simp_all
  with r d1 le out 1(4) show ?thesis by auto
qed

lemma compress_video_ladder:
  assumes "probe inp = Some fmt" and "duration_field fmt = Some D" and "size_field fmt = Some sz"
    and "target_bitrate tgt D = Inr tb"
    and "compress_loop run inp (output_path_of inp) tgt d 1
           (py_slice_to m (compression_levels tb)) = (r, d1, t1)"
  shows "compress_video probe run d inp tgt m =
     (if r = Inr None
      then (Inr None, d1(output_path_of inp := None),
            t1 @ [(LogExhausted, d1)] @ snd (remove_if_exists d1 (output_path_of inp)))
      else (r, d1, t1))"
proof -
  obtain d2 t2 where rm: "remove_if_exists d1 (output_path_of inp) = (d2, t2)"
    by (cases "remove_if_exists d1 (output_path_of inp)") auto
  from rm remove_if_exists_disk [of d1 "output_path_of inp"]
  have d2: "d2 = d1(output_path_of inp := None)" by simp
  from loop_result [OF assms(5)]
  consider "r = Inr None" | "r = Inr (Some (output_path_of inp))" | "r = Inl UnicodeDecodeError"
    by blast
  then show ?thesis
    using assms rm d2 by cases (simp_all add: compress_video_def)
qed

lemma loop_raised_event:
  "compress_loop run inp out tgt d k ls = (Inl e, d', t) \<Longrightarrow>
   \<exists>j i out' l' s. (FfmpegRun j i out' l', s) \<in> set t \<and> escapes (run j i out' l')"
proof (induction ls arbitrary: d k t)
  case Nil
  then show ?case by simp
next
  case (Cons l ls)
  from Cons.prems(1) show ?case
  proof (cases rule: loop_ConsE)
    case found
    then show ?thesis by simp
  next
    case (continue t1 t2)
    from Cons.IH [OF continue(3)] obtain j i out' l' s
      where "(FfmpegRun j i out' l', s) \<in> set t2" and "escapes (run j i out' l')" by blast
    with continue(4) have "(FfmpegRun j i out' l', s) \<in> set t \<and> escapes (run j i out' l')"
      by simp
    then show ?thesis by blast
  next
    case escaped
    from attempt_props(7) [OF escaped(4)] escaped(1) show ?thesis by blast
  qed
qed

text \<open>
  The only exceptions that leave \<open>compress_video\<close>: the division by a zero
  duration, before any attempt, and the \<open>UnicodeDecodeError\<close> of the handler
  of an attempt whose \<open>ffmpeg.Error\<close> carries bytes that are not UTF-8.
\<close>

lemma compress_video_raises_only:
  assumes "compress_video probe run d inp tgt m = (Inl e, d', t)"
  shows "(e = ZeroDivisionError \<and> t = []) \<or>
         (e = UnicodeDecodeError \<and>
          (\<exists>k i out l. FfmpegRun k i out l \<in> fst ` set t \<and> escapes (run k i out l)))"
  using assms
proof (cases rule: compress_video_cases)
  case (handler_raised D tb fmt)
  from loop_raised_event [OF handler_raised(2)] handler_raised(3) show ?thesis by force
qed simp_all

text \<open>
  C5. The claim fails where the handler of \<open>ffmpeg.Error\<close> raises: in the sample
  run the only executed attempt fails to encode, with a partial file and
  standard error that is not UTF-8; \<open>compress_video\<close> does not return \<open>None\<close>
  but raises \<open>UnicodeDecodeError\<close>, and the partial candidate of 500 bytes
  stays at the output path.
\<close>

theorem undecodable_stderr_leaves_candidate:
  "fst (compress_video sample_probe run_bad_stderr sample_disk sample_input 8388608 3) =
     Inl UnicodeDecodeError \<and>
   attempts_run (snd (snd (compress_video sample_probe run_bad_stderr sample_disk sample_input
     8388608 3))) = [1] \<and>
   raised (run_bad_stderr 1 sample_input sample_output
     \<lparr>video_bitrate = 1901417, crf = 28, preset = ''medium''\<rparr>) =
     Some (FfmpegError (Some NotUtf8)) \<and>
   fst (snd (compress_video sample_probe run_bad_stderr sample_disk sample_input 8388608 3))
     sample_output = Some (File 500 4)"
  by (simp add: compress_video_def sample_output_eq sample_probe_def sample_target sample_levels
      attempt_def remove_if_exists_def os_path_exists_def os_remove_def sample_disk_def
      run_bad_stderr_def sample_paths_neq Let_def)

text \<open>
  Apart from that defect the claim holds, read for the attempts that were
  executed: when the ladder is entered (the probe succeeds with a non-zero
  duration), no executed attempt fits the budget and no handler raises, then
  \<open>compress_video\<close> returns \<open>None\<close> and no file is left at the output path.
\<close>

lemma handled_ladder_leaves_nothing:
  assumes "probe inp = Some fmt" and "duration_field fmt = Some D" and "size_field fmt = Some sz"
    and "D \<noteq> 0"
    and "compress_video probe run d inp tgt m = (res, d', t)"
    and "\<And>k i out l. FfmpegRun k i out l \<in> fst ` set t \<Longrightarrow>
           \<not> fits tgt (run k i out l) \<and> \<not> escapes (run k i out l)"
  shows "res = Inr None \<and> d' (output_path_of inp) = None"
proof -
  obtain tb where tb: "target_bitrate tgt D = Inr tb"
    using assms(4) by (simp add: target_bitrate_def)
  obtain r d1 t1 where l: "compress_loop run inp (output_path_of inp) tgt d 1
           (py_slice_to m (compression_levels tb)) = (r, d1, t1)"
    by (cases "compress_loop run inp (output_path_of inp) tgt d 1
           (py_slice_to m (compression_levels tb))") auto
  note eq = compress_video_ladder [where probe = probe and inp = inp, OF assms(1-3) tb l]
  show ?thesis
  proof (cases "r = Inr None")
    case True
    with eq assms(5) show ?thesis by simp
  next
    case False
    with eq assms(5) have t: "t = t1" by simp
    have "r = Inr None"
    proof (rule loop_exhaust [OF l])
      fix j i out' l' s
      assume "(FfmpegRun j i out' l', s) \<in> set t1"
      with t have "FfmpegRun j i out' l' \<in> fst ` set t" by force
      from assms(6) [OF this]
      show "\<not> fits tgt (run j i out' l') \<and> \<not> escapes (run j i out' l')" .
    qed
    with False show ?thesis by simp
  qed
qed

text \<open>
  C7. The claim fails where the handler of \<open>ffmpeg.Error\<close> itself raises: in the
  sample run the encode tool fails at attempt 1 with standard error that is not
  UTF-8; the failure is not logged, attempts 2 and 3 of the ladder are not
  executed, and \<open>UnicodeDecodeError\<close> leaves \<open>compress_video\<close>.
\<close>

theorem undecodable_stderr_aborts_ladder:
  "raised (run_bad_stderr 1 sample_input sample_output
     \<lparr>video_bitrate = 1901417, crf = 28, preset = ''medium''\<rparr>) =
     Some (FfmpegError (Some NotUtf8)) \<and>
   attempts_planned 3 = 3 \<and>
   map fst (snd (snd (compress_video sample_probe run_bad_stderr sample_disk sample_input
     8388608 3))) =
     [FfmpegRun 1 sample_input sample_output
        \<lparr>video_bitrate = 1901417, crf = 28, preset = ''medium''\<rparr>] \<and>
   fst (compress_video sample_probe run_bad_stderr sample_disk sample_input 8388608 3) =
     Inl UnicodeDecodeError"
  by (simp add: compress_video_def sample_output_eq sample_probe_def sample_target sample_levels
      attempt_def remove_if_exists_def os_path_exists_def os_remove_def sample_disk_def
      run_bad_stderr_def sample_paths_neq Let_def attempts_planned_def py_slice_to_def
      compression_levels_def)

text \<open>
  Apart from that defect the claim holds: if the encode tool raises at an
  executed attempt \<open>k\<close> and the handler does not raise, the failure is logged and
  the next attempt is executed whenever the ladder has one.
\<close>

lemma handled_failure_continues:
  assumes "compress_video probe run d inp tgt m = (res, d', t)"
    and "FfmpegRun k i out l \<in> fst ` set t"
    and "raised (run k i out l) = Some e"
    and "\<not> escapes (run k i out l)"
  shows "(case e of FfmpegError b \<Rightarrow> LogFfmpegError k | UnexpectedError \<Rightarrow> LogUnexpectedError k)
           \<in> fst ` set t \<and>
         (k < attempts_planned m \<longrightarrow> Suc k \<in> set (attempts_run t))"
  using assms(1,2)
proof (cases rule: compress_video_run_event)
  case (1 D tb r d1 t1 s)
  have nofit: "\<not> fits tgt (run k i out l)" using assms(3) by (simp add: fits_def)
  have "(case e of FfmpegError b \<Rightarrow> LogFfmpegError k | UnexpectedError \<Rightarrow> LogUnexpectedError k)
           \<in> fst ` set t1"
    using loop_logs [OF 1(2,3)] assms(3,4) by (cases e) (auto simp: escapes_def)
  then have log: "(case e of FfmpegError b \<Rightarrow> LogFfmpegError k | UnexpectedError \<Rightarrow> LogUnexpectedError k)
           \<in> fst ` set t"
    using 1(7) by blast
  have "Suc k \<in> set (attempts_run t)" if "k < attempts_planned m"
  proof -
    from that have "Suc k < 1 + length (py_slice_to m (compression_levels tb))"
      by (simp add: attempts_planned_eq)
    from loop_continue [OF 1(2,3) nofit assms(4) this] 1(6) show ?thesis by simp
  qed
  with log show ?thesis by blast
qed

lemma compress_video_footprint:
  assumes "compress_video probe run d inp tgt m = (res, d', t)"
  shows "(\<forall>p. p \<noteq> output_path_of inp \<longrightarrow> d' p = d p) \<and>
         (\<forall>(e, s) \<in> set t. \<forall>p. p \<noteq> output_path_of inp \<longrightarrow> s p = d p) \<and>
         (\<forall>p. Remove p \<in> fst ` set t \<longrightarrow> p = output_path_of inp) \<and>
         (\<forall>k i out l. FfmpegRun k i out l \<in> fst ` set t \<longrightarrow> i = inp \<and> out = output_path_of inp)"
proof -
  let ?out = "output_path_of inp"
  show ?thesis
    using assms
  proof (cases rule: compress_video_cases)
    case probe_failed
    then show ?thesis by auto
  next
    case zero_division
    then show ?thesis by auto
  next
    case (fit D tb)
    have a: "\<forall>p. p \<noteq> ?out \<longrightarrow> d' p = d p"
      using loop_frame [OF fit(2)] by blast
    have b: "\<forall>(e, s) \<in> set t. \<forall>p. p \<noteq> ?out \<longrightarrow> s p = d p"
      using loop_trace_frame [OF fit(2)] by blast
    have c: "\<forall>p. Remove p \<in> fst ` set t \<longrightarrow> p = ?out"
      using loop_remove_events [OF fit(2)] by auto
    have e: "\<forall>k i out l. FfmpegRun k i out l \<in> fst ` set t \<longrightarrow> i = inp \<and> out = ?out"
    proof (clarify)
      fix k i out l e s assume es: "(e, s) \<in> set t" and e: "FfmpegRun k i out l = fst (e, s)"
      then have "(FfmpegRun k i out l, s) \<in> set t" by simp
      from loop_run_events [OF fit(2) this] show "i = inp \<and> out = ?out" by simp
    qed
    from a b c e show ?thesis by blast
  next
    case (handler_raised D tb)
    have a: "\<forall>p. p \<noteq> ?out \<longrightarrow> d' p = d p"
      using loop_frame [OF handler_raised(2)] by blast
    have b: "\<forall>(e, s) \<in> set t. \<forall>p. p \<noteq> ?out \<longrightarrow> s p = d p"
      using loop_trace_frame [OF handler_raised(2)] by blast
    have c: "\<forall>p. Remove p \<in> fst ` set t \<longrightarrow> p = ?out"
      using loop_remove_events [OF handler_raised(2)] by auto
    have e: "\<forall>k i out l. FfmpegRun k i out l \<in> fst ` set t \<longrightarrow> i = inp \<and> out = ?out"
    proof (clarify)
      fix k i out l e s assume es: "(e, s) \<in> set t" and e: "FfmpegRun k i out l = fst (e, s)"
      then have "(FfmpegRun k i out l, s) \<in> set t" by simp
      from loop_run_events [OF handler_raised(2) this] show "i = inp \<and> out = ?out" by simp
    qed
    from a b c e show ?thesis by blast
  next
    case (exhausted D tb d1 t1 t2)
    have a: "\<forall>p. p \<noteq> ?out \<longrightarrow> d' p = d p"
      using loop_frame [OF exhausted(2)] exhausted(4) by simp
    have b: "\<forall>(e, s) \<in> set t. \<forall>p. p \<noteq> ?out \<longrightarrow> s p = d p"
    proof (clarify)
      fix e s p assume es: "(e, s) \<in> set t" and p: "p \<noteq> ?out"
      from es exhausted(5) consider "(e, s) \<in> set t1" | "s = d1" | "(e, s) \<in> set t2" by auto
      then show "s p = d p"
      proof cases
        case 1
        from loop_trace_frame [OF exhausted(2) 1 p] show ?thesis .
      next
        case 2
        with loop_frame [OF exhausted(2) p] show ?thesis by simp
      next
        case 3
        from exhausted(6) [OF 3] a p show ?thesis by simp
      qed
    qed
    have c: "\<forall>p. Remove p \<in> fst ` set t \<longrightarrow> p = ?out"
    proof (clarify)
      fix p e s assume es: "(e, s) \<in> set t" and e: "Remove p = fst (e, s)"
      from es exhausted(5) consider "(e, s) \<in> set t1" | "e = LogExhausted" | "(e, s) \<in> set t2"
        by auto
      then show "p = ?out"
      proof cases
        case 1
        with e have "(Remove p, s) \<in> set t1" by simp
        from loop_remove_events [OF exhausted(2) this] show ?thesis .
      next
        case 2
        with e show ?thesis by simp
      next
        case 3
        from exhausted(6) [OF 3] e show ?thesis by simp
      qed
    qed
    have e: "\<forall>k i out l. FfmpegRun k i out l \<in> fst ` set t \<longrightarrow> i = inp \<and> out = ?out"
    proof (clarify)
      fix k i out l e s assume es: "(e, s) \<in> set t" and e: "FfmpegRun k i out l = fst (e, s)"
      from es exhausted(5) consider "(e, s) \<in> set t1" | "e = LogExhausted" | "(e, s) \<in> set t2"
        by auto
      then show "i = inp \<and> out = ?out"
      proof cases
        case 1
        with e have "(FfmpegRun k i out l, s) \<in> set t1" by simp
        from loop_run_events [OF exhausted(2) this] show ?thesis by simp
      next
        case 2
        with e show ?thesis by simp
      next
        case 3
        from exhausted(6) [OF 3] e show ?thesis by simp
      qed
    qed
    from a b c e show ?thesis by blast
  qed
qed

text \<open>
  C10. The output path is the input's base, \<open>_compressed\<close> and the input's
  extension, and differs from the input path. Every state of the disk during a
  run, and the final one, agrees with the initial disk on every other path; in
  particular the input file is as it was. Only the output path is removed or
  written.
\<close>

theorem input_file_untouched:
  assumes "compress_video probe run d inp tgt m = (res, d', t)"
  shows "output_path_of inp = fst (splitext inp) @ py ''_compressed'' @ snd (splitext inp) \<and>
         output_path_of inp \<noteq> inp \<and>
         d' inp = d inp \<and>
         (\<forall>p. p \<noteq> output_path_of inp \<longrightarrow> d' p = d p) \<and>
         (\<forall>(e, s) \<in> set t. \<forall>p. p \<noteq> output_path_of inp \<longrightarrow> s p = d p) \<and>
         (\<forall>p. Remove p \<in> fst ` set t \<longrightarrow> p = output_path_of inp) \<and>
         (\<forall>k i out l. FfmpegRun k i out l \<in> fst ` set t \<longrightarrow> i = inp \<and> out = output_path_of inp)"
proof -
  note frame = compress_video_footprint [OF assms]
  have neq: "inp \<noteq> output_path_of inp" using output_path_of_neq [of inp] by simp
  with frame have "d' inp = d inp" by blast
  with frame output_path_of_eq [of inp] output_path_of_neq [of inp] show ?thesis by blast
qed

lemma sample_run_never:
  "compress_video sample_probe run_never_fits sample_disk sample_input 8388608 3 = (res, d', t) \<Longrightarrow>
   res = Inr None \<and>
   map fst t =
     [FfmpegRun 1 sample_input sample_output \<lparr>video_bitrate = 1901417, crf = 28, preset = ''medium''\<rparr>,
      LogFfmpegError 1,
      FfmpegRun 2 sample_input sample_output \<lparr>video_bitrate = 1521133, crf = 32, preset = ''fast''\<rparr>,
      LogTooLarge 2, Remove sample_output,
      FfmpegRun 3 sample_input sample_output \<lparr>video_bitrate = 1140850, crf = 35, preset = ''veryfast''\<rparr>,
      LogUnexpectedError 3, LogExhausted, Remove sample_output]"
  by (auto simp add: compress_video_def sample_output_eq sample_probe_def sample_target sample_levels
      attempt_def remove_if_exists_def os_path_exists_def os_remove_def sample_disk_def
      run_never_fits_def sample_paths_neq Let_def)

lemma sample_run_fits_result:
  "compress_video sample_probe run_second_fits sample_disk sample_input 8388608 3 = (res, d', t) \<Longrightarrow>
   res = Inr (Some sample_output) \<and> d' sample_output = Some (File 7000000 3) \<and>
   d' sample_input = Some (File 20971520 1) \<and>
   map fst t =
     [FfmpegRun 1 sample_input sample_output \<lparr>video_bitrate = 1901417, crf = 28, preset = ''medium''\<rparr>,
      LogTooLarge 1, Remove sample_output,
      FfmpegRun 2 sample_input sample_output \<lparr>video_bitrate = 1521133, crf = 32, preset = ''fast''\<rparr>,
      LogSuccess 2]"
  by (auto simp add: compress_video_def sample_output_eq sample_probe_def sample_target sample_levels
      attempt_def remove_if_exists_def os_path_exists_def os_remove_def sample_disk_def
      run_second_fits_def sample_paths_neq Let_def)

theorem first_fit_wins_witness:
  "(case compress_video sample_probe run_second_fits sample_disk sample_input 8388608 3 of
      (res, d', t) \<Rightarrow>
        FfmpegRun 2 sample_input sample_output
          \<lparr>video_bitrate = 1521133, crf = 32, preset = ''fast''\<rparr> \<in> fst ` set t \<and>
        raised (run_second_fits 2 sample_input sample_output
          \<lparr>video_bitrate = 1521133, crf = 32, preset = ''fast''\<rparr>) = None \<and>
        written (run_second_fits 2 sample_input sample_output
          \<lparr>video_bitrate = 1521133, crf = 32, preset = ''fast''\<rparr>) = Some (File 7000000 3) \<and>
        int (fsize (File 7000000 3)) \<le> 8388608 \<and>
        res = Inr (Some sample_output) \<and> d' sample_output = Some (File 7000000 3) \<and>
        Suc 2 \<notin> set (attempts_run t))"
proof -
  obtain res d' t where X:
    "compress_video sample_probe run_second_fits sample_disk sample_input 8388608 3 = (res, d', t)"
    by (cases "compress_video sample_probe run_second_fits sample_disk sample_input 8388608 3") auto
  let ?l = "\<lparr>video_bitrate = 1521133, crf = 32, preset = ''fast''\<rparr>"
  have ev: "FfmpegRun 2 sample_input sample_output ?l \<in> fst ` set t"
    using sample_run_fits_result [OF X] by (simp flip: set_map)
  have r: "raised (run_second_fits 2 sample_input sample_output ?l) = None"
    and w: "written (run_second_fits 2 sample_input sample_output ?l) = Some (File 7000000 3)"
    and sz: "int (fsize (File 7000000 3)) \<le> 8388608"
    by (simp_all add: run_second_fits_def)
  from first_fit_wins [OF X ev r w sz] ev r w sz show ?thesis
    unfolding X by (simp add: sample_output_eq)
qed

text \<open>
  Both lemmas apply to the sample run in which no attempt fits: the first attempt
  fails with readable standard error, the second is too large, the third fails
  with another exception.
\<close>

lemma exhausted_ladder_sample:
  "(case compress_video sample_probe run_never_fits sample_disk sample_input 8388608 3 of
      (res, d', t) \<Rightarrow>
        res = Inr None \<and> d' sample_output = None \<and> attempts_run t = [1, 2, 3])"
proof -
  obtain res d' t where X:
    "compress_video sample_probe run_never_fits sample_disk sample_input 8388608 3 = (res, d', t)"
    by (cases "compress_video sample_probe run_never_fits sample_disk sample_input 8388608 3") auto
  have p: "sample_probe sample_input = Some \<lparr>duration_field = Some 30, size_field = Some 20971520\<rparr>"
    by (simp add: sample_probe_def)
  have nf: "\<not> fits 8388608 (run_never_fits k i out l) \<and> \<not> escapes (run_never_fits k i out l)"
    for k i out l
    by (simp add: fits_def escapes_def run_never_fits_def)
  have a: "attempts_run t = [1, 2, 3]"
  proof -
    have "attempts_run t = attempts_run (map (\<lambda>e. (e, undefined :: fs)) (map fst t))"
      by (induction t rule: attempts_run.induct) simp_all
    then show ?thesis using sample_run_never [OF X] by simp
  qed
  from handled_ladder_leaves_nothing [where probe = sample_probe and inp = sample_input,
      OF p _ _ _ X nf]
  have "res = Inr None \<and> d' (output_path_of sample_input) = None" by simp
  with a show ?thesis unfolding X by (simp add: sample_output_eq)
qed

lemma failed_attempt_sample:
  "(case compress_video sample_probe run_never_fits sample_disk sample_input 8388608 3 of
      (res, d', t) \<Rightarrow>
        LogFfmpegError 1 \<in> fst ` set t \<and> Suc 1 \<in> set (attempts_run t))"
proof -
  obtain res d' t where X:
    "compress_video sample_probe run_never_fits sample_disk sample_input 8388608 3 = (res, d', t)"
    by (cases "compress_video sample_probe run_never_fits sample_disk sample_input 8388608 3") auto
  let ?l = "\<lparr>video_bitrate = 1901417, crf = 28, preset = ''medium''\<rparr>"
  have ev: "FfmpegRun 1 sample_input sample_output ?l \<in> fst ` set t"
    using sample_run_never [OF X] by (simp flip: set_map)
  have r: "raised (run_never_fits 1 sample_input sample_output ?l) = Some (FfmpegError (Some Utf8))"
    by (simp add: run_never_fits_def)
  then have ne: "\<not> escapes (run_never_fits 1 sample_input sample_output ?l)"
    by (simp add: escapes_def)
  have n: "1 < attempts_planned 3"
    by (simp add: attempts_planned_def py_slice_to_def compression_levels_def)
  from handled_failure_continues [OF X ev r ne] n show ?thesis
    unfolding X by simp
qed

theorem input_file_untouched_witness:
  "(case compress_video sample_probe run_second_fits sample_disk sample_input 8388608 3 of
      (res, d', t) \<Rightarrow>
        output_path_of sample_input = sample_output \<and> sample_output \<noteq> sample_input \<and>
        d' sample_input = Some (File 20971520 1) \<and> d' sample_output = Some (File 7000000 3))"
proof -
  obtain res d' t where X:
    "compress_video sample_probe run_second_fits sample_disk sample_input 8388608 3 = (res, d', t)"
    by (cases "compress_video sample_probe run_second_fits sample_disk sample_input 8388608 3") auto
  have d: "sample_disk sample_input = Some (File 20971520 1)" by (simp add: sample_disk_def)
  from input_file_untouched [OF X] have "d' sample_input = sample_disk sample_input" by blast
  with d sample_run_fits_result [OF X] sample_paths_neq show ?thesis
    unfolding X by (simp add: sample_output_eq)
qed

section \<open>The pipeline\<close>

lemma cleanup_file_eq: "cleanup_file d p = d(p := None)"
  by (auto simp: cleanup_file_def os_path_exists_def os_remove_def)

lemma try_reaction_eq:
  "try_reaction dc site emoji s =
     (case dc site of
        None \<Rightarrow> (None, s\<lparr>reactions := reactions s @ [emoji]\<rparr>)
      | Some e \<Rightarrow> (if e = Forbidden then None else Some e, s))"
  by (cases "dc site") (simp_all add: try_reaction_def add_reaction_def)

lemma try_reaction_state:
  assumes "try_reaction dc site emoji s = (r, s')"
  shows "disk s' = disk s" and "replies s' = replies s" and "cleanups s' = cleanups s"
    and "snapshots s' = snapshots s"
  using assms by (cases "dc site"; simp add: try_reaction_eq; fastforce)+

lemma try_reaction_result:
  assumes "try_reaction dc site emoji s = (r, s')"
  shows "r = (case dc site of None \<Rightarrow> None | Some e \<Rightarrow> if e = Forbidden then None else Some e)"
  using assms by (cases "dc site") (auto simp add: try_reaction_eq)

lemma reply_then_reaction:
  assumes "(case reply dc rsite n s of
              (Some e, s') \<Rightarrow> (Some e, s')
            | (None, s') \<Rightarrow> try_reaction dc msite emoji s') = (r, s'')"
  shows "disk s'' = disk s \<and> cleanups s'' = cleanups s \<and> snapshots s'' = snapshots s \<and>
         replies s'' = (if dc rsite = None then replies s @ [n] else replies s) \<and>
         (r = None \<longrightarrow> dc rsite = None)"
proof (cases "dc rsite")
  case None
  with assms have t: "try_reaction dc msite emoji (s\<lparr>replies := replies s @ [n]\<rparr>) = (r, s'')"
    by (simp add: reply_def)
  from try_reaction_state [OF t] None show ?thesis by simp
next
  case (Some e)
  with assms have "r = Some e" "s'' = s" by (simp_all add: reply_def)
  with Some show ?thesis by simp
qed

lemma handle_download_error_state:
  assumes "handle_download_error dc platform s = (r, s')"
  shows "disk s' = disk s" and "cleanups s' = cleanups s" and "snapshots s' = snapshots s"
    and "replies s' = (if dc ReplyDownloadError = None then replies s @ [DownloadErrorText platform]
                       else replies s)"
    and "r = None \<Longrightarrow> dc ReplyDownloadError = None"
  using reply_then_reaction [OF assms [unfolded handle_download_error_def]] by simp_all

lemma handle_file_too_large_state:
  assumes "handle_file_too_large dc fsz s = (r, s')"
  shows "disk s' = disk s" and "cleanups s' = cleanups s" and "snapshots s' = snapshots s"
    and "replies s' = (if dc ReplyTooLarge = None then replies s @ [TooLargeText fsz]
                       else replies s)"
    and "r = None \<Longrightarrow> dc ReplyTooLarge = None"
  using reply_then_reaction [OF assms [unfolded handle_file_too_large_def]] by simp_all

lemma handle_compression_failed_state:
  assumes "handle_compression_failed dc fsz s = (r, s')"
  shows "disk s' = disk s" and "cleanups s' = cleanups s" and "snapshots s' = snapshots s"
    and "replies s' = (if dc ReplyCompressionFailed = None
                       then replies s @ [CompressionFailedText fsz] else replies s)"
    and "r = None \<Longrightarrow> dc ReplyCompressionFailed = None"
  using reply_then_reaction [OF assms [unfolded handle_compression_failed_def]] by simp_all

lemma reply_reaction_outcome:
  assumes "(case reply dc rsite n s of
              (Some e', s1) \<Rightarrow> (Escaped e', s1)
            | (None, s1) \<Rightarrow>
                (case try_reaction dc msite emoji s1 of
                   (Some e', s2) \<Rightarrow> (Escaped e', s2)
                 | (None, s2) \<Rightarrow> (UploadFailed, s2))) = (oc, s')"
  shows "disk s' = disk s \<and> cleanups s' = cleanups s \<and> snapshots s' = snapshots s \<and>
         oc \<noteq> Delivered \<and>
         (oc = UploadFailed \<longrightarrow> replies s' = replies s @ [n]) \<and>
         (replies s' = replies s \<or> replies s' = replies s @ [n])"
proof (cases "dc rsite")
  case None
  obtain r s2 where t: "try_reaction dc msite emoji (s\<lparr>replies := replies s @ [n]\<rparr>) = (r, s2)"
    by (cases "try_reaction dc msite emoji (s\<lparr>replies := replies s @ [n]\<rparr>)") auto
  from assms None t have "s' = s2" "oc = (case r of None \<Rightarrow> UploadFailed | Some e' \<Rightarrow> Escaped e')"
    by (auto simp: reply_def split: option.splits)
  with try_reaction_state [OF t] show ?thesis
    by (auto split: option.splits)
next
  case (Some e')
  with assms have "s' = s" "oc = Escaped e'" by (auto simp: reply_def)
  then show ?thesis by simp
qed

lemma upload_except_state:
  assumes "upload_except dc e s = (oc, s')"
  shows "disk s' = disk s \<and> cleanups s' = cleanups s \<and> snapshots s' = snapshots s \<and>
         oc \<noteq> Delivered \<and>
         (oc = UploadFailed \<longrightarrow> length (replies s') = Suc (length (replies s))) \<and>
         (replies s' = replies s \<or> replies s' = replies s @ [UploadFailedText] \<or>
          replies s' = replies s @ [UnexpectedUploadText])"
proof (cases "e = Forbidden \<or> e = HTTPException")
  case True
  with assms have "upload_http_error dc s = (oc, s')" by (simp add: upload_except_def)
  from reply_reaction_outcome [OF this [unfolded upload_http_error_def]] show ?thesis by auto
next
  case False
  with assms have "upload_unexpected dc s = (oc, s')" by (simp add: upload_except_def)
  from reply_reaction_outcome [OF this [unfolded upload_unexpected_def]] show ?thesis by auto
qed

lemma enter_simps:
  "disk (enter ph s) = disk s" "replies (enter ph s) = replies s"
  "cleanups (enter ph s) = cleanups s" "snapshots (enter ph s) = snapshots s @ [(ph, disk s)]"
  by (simp_all add: enter_def)

lemma do_cleanup_simps:
  "disk (do_cleanup p s) = (disk s)(p := None)" "replies (do_cleanup p s) = replies s"
  "cleanups (do_cleanup p s) = cleanups s @ [p]" "snapshots (do_cleanup p s) = snapshots s"
  by (simp_all add: do_cleanup_def cleanup_file_eq)

text \<open>The body of the \<open>try\<close> of the upload with its \<open>except\<close> clauses.\<close>

lemma upload_eq:
  "upload dc fp ttl s0 =
     (case (case disk s0 fp of
              None \<Rightarrow> upload_except dc OtherException (enter Uploading s0)
            | Some f \<Rightarrow>
                (case dc ReplyFile of
                   Some e \<Rightarrow> upload_except dc e (enter Uploading s0)
                 | None \<Rightarrow>
                     (case dc ReactSuccess of
                        None \<Rightarrow> (Delivered, enter Uploading s0
                           \<lparr>replies := replies s0 @ [Attachment (take 50 ttl @ py ''.mp4'') f],
                            reactions := reactions s0 @ [''success'']\<rparr>)
                      | Some e \<Rightarrow>
                          if e = Forbidden
                          then (Delivered, enter Uploading s0
                             \<lparr>replies := replies s0 @ [Attachment (take 50 ttl @ py ''.mp4'') f]\<rparr>)
                          else upload_except dc e (enter Uploading s0
                             \<lparr>replies := replies s0 @ [Attachment (take 50 ttl @ py ''.mp4'') f]\<rparr>)))) of
        (oc, s3) \<Rightarrow> (oc, enter Finished (do_cleanup fp s3)))"
  by (simp add: upload_def Let_def reply_def try_reaction_eq enter_def
      split: option.splits)

lemma upload_state:
  assumes "upload dc fp ttl s0 = (oc, s)"
  shows "disk s = (disk s0)(fp := None)"
    and "cleanups s = cleanups s0 @ [fp]"
    and "snapshots s = snapshots s0 @ [(Uploading, disk s0), (Finished, (disk s0)(fp := None))]"
proof -
  obtain oc' s3 where b: "(case disk s0 fp of
              None \<Rightarrow> upload_except dc OtherException (enter Uploading s0)
            | Some f \<Rightarrow>
                (case dc ReplyFile of
                   Some e \<Rightarrow> upload_except dc e (enter Uploading s0)
                 | None \<Rightarrow>
                     (case dc ReactSuccess of
                        None \<Rightarrow> (Delivered, enter Uploading s0
                           \<lparr>replies := replies s0 @ [Attachment (take 50 ttl @ py ''.mp4'') f],
                            reactions := reactions s0 @ [''success'']\<rparr>)
                      | Some e \<Rightarrow>
                          if e = Forbidden
                          then (Delivered, enter Uploading s0
                             \<lparr>replies := replies s0 @ [Attachment (take 50 ttl @ py ''.mp4'') f]\<rparr>)
                          else upload_except dc e (enter Uploading s0
                             \<lparr>replies := replies s0 @ [Attachment (take 50 ttl @ py ''.mp4'') f]\<rparr>)))) = (oc', s3)"
    (is "?body = _") by (cases ?body) auto
  from assms b have s: "s = enter Finished (do_cleanup fp s3)" and oc: "oc = oc'"
    by (simp_all add: upload_eq)
  have "disk s3 = disk s0 \<and> cleanups s3 = cleanups s0 \<and>
        snapshots s3 = snapshots s0 @ [(Uploading, disk s0)]"
    using b
    by (auto simp: enter_simps split: option.splits if_splits dest!: upload_except_state)
  then show "disk s = (disk s0)(fp := None)"
    and "cleanups s = cleanups s0 @ [fp]"
    and "snapshots s = snapshots s0 @ [(Uploading, disk s0), (Finished, (disk s0)(fp := None))]"
    unfolding s by (simp_all add: enter_simps do_cleanup_simps)
qed

lemma upload_delivered:
  assumes "upload dc fp ttl s0 = (Delivered, s)"
  shows "\<exists>f. disk s0 fp = Some f \<and>
             replies s = replies s0 @ [Attachment (take 50 ttl @ py ''.mp4'') f]"
  using assms
  by (auto simp: upload_eq enter_simps do_cleanup_simps
      split: option.splits if_splits prod.splits dest!: upload_except_state)

lemma upload_one_reply:
  assumes "upload dc fp ttl s0 = (oc, s)"
    and "dc ReactSuccess = None \<or> dc ReactSuccess = Some Forbidden"
    and "oc = Delivered \<or> oc = UploadFailed"
  shows "length (replies s) = Suc (length (replies s0))"
  using assms
  by (auto simp: upload_eq enter_simps do_cleanup_simps
      split: option.splits if_splits prod.splits dest!: upload_except_state)

lemma loop_found:
  "compress_loop run inp out tgt d k ls = (Inr (Some p), d', t) \<Longrightarrow>
   p = out \<and> (\<exists>f. d' out = Some f \<and> int (fsize f) \<le> tgt)"
proof (induction ls arbitrary: d k t)
  case Nil
  then show ?case by simp
next
  case (Cons l ls)
  from Cons.prems(1) show ?case
  proof (cases rule: loop_ConsE)
    case found
    then show ?thesis
      by (auto simp: fits_def after_run_out split: option.splits)
  next
    case (continue t1 t2)
    from Cons.IH [OF continue(3)] show ?thesis .
  next
    case escaped
    then show ?thesis by simp
  qed
qed

lemma compress_video_found:
  assumes "compress_video probe run d inp tgt m = (Inr (Some p), d', t)"
  shows "p = output_path_of inp \<and> (\<exists>f. d' p = Some f \<and> int (fsize f) \<le> tgt)"
  using assms
proof (cases rule: compress_video_cases)
  case (fit D tb)
  from loop_found [OF fit(2)] fit(3) show ?thesis by simp
qed simp_all

lemma download_video_some:
  assumes "download_video ydl d0 url = (Some vi, d1)"
  shows "\<exists>f. d1 (filepath vi) = Some f \<and> filesize vi = int (fsize f)"
  using assms
  by (auto simp: download_video_def split: prod.splits sum.splits option.splits)

lemma record_compression_simps:
  "disk (record_compression t d s) = d" "replies (record_compression t d s) = replies s"
  "cleanups (record_compression t d s) = cleanups s"
  "snapshots (record_compression t d s) = snapshots s @ map (\<lambda>(e, d'). (Compressing, d')) t"
  by (simp_all add: record_compression_def)

lemma process_cases:
  assumes P: "process_video_url cfg dc ydl probe run d0 url platform = (oc, s)"
  obtains
    (escaped_first) e where "oc = Escaped e" and "disk s = d0" and "replies s = []"
      and "cleanups s = []" and "snapshots s = []"
  | (download_failed) d1 where "download_video ydl d0 url = (None, d1)"
      and "oc = DownloadFailed \<or> (\<exists>e. oc = Escaped e)"
      and "oc = DownloadFailed \<Longrightarrow> replies s = [DownloadErrorText platform]"
      and "disk s = d1" and "cleanups s = []" and "snapshots s = []"
  | (direct) vi d1 s2 where "download_video ydl d0 url = (Some vi, d1)"
      and "\<not> filesize vi > MAX_FILE_SIZE cfg"
      and "upload dc (filepath vi) (title vi) s2 = (oc, s)"
      and "disk s2 = d1" and "replies s2 = []" and "cleanups s2 = []"
      and "snapshots s2 = [(SizeCheck, d1)]"
  | (too_large) vi d1 where "download_video ydl d0 url = (Some vi, d1)"
      and "filesize vi > MAX_FILE_SIZE cfg" and "\<not> ENABLE_COMPRESSION cfg"
      and "oc = TooLarge" and "replies s = [TooLargeText (filesize vi)]"
      and "disk s = d1(filepath vi := None)" and "cleanups s = [filepath vi]"
      and "snapshots s = [(SizeCheck, d1), (Finished, d1(filepath vi := None))]"
  | (escaped_before_compression) vi d1 e where "download_video ydl d0 url = (Some vi, d1)"
      and "filesize vi > MAX_FILE_SIZE cfg"
      and "oc = Escaped e" and "disk s = d1" and "cleanups s = []"
      and "snapshots s = [(SizeCheck, d1)]"
  | (escaped_after_compression) vi d1 e res d2 t where "download_video ydl d0 url = (Some vi, d1)"
      and "filesize vi > MAX_FILE_SIZE cfg" and "ENABLE_COMPRESSION cfg"
      and "compress_video probe run d1 (filepath vi) (MAX_FILE_SIZE cfg)
             (MAX_COMPRESSION_ATTEMPTS cfg) = (res, d2, t)"
      and "res = Inl e \<or> res = Inr None"
      and "oc = Escaped e" and "disk s = d2" and "cleanups s = []"
      and "snapshots s = (SizeCheck, d1) # map (\<lambda>(e, d'). (Compressing, d')) t"
  | (compression_failed) vi d1 d2 t where "download_video ydl d0 url = (Some vi, d1)"
      and "filesize vi > MAX_FILE_SIZE cfg" and "ENABLE_COMPRESSION cfg"
      and "compress_video probe run d1 (filepath vi) (MAX_FILE_SIZE cfg)
             (MAX_COMPRESSION_ATTEMPTS cfg) = (Inr None, d2, t)"
      and "oc = CompressionFailed" and "replies s = [CompressionFailedText (filesize vi)]"
      and "disk s = d2(filepath vi := None)" and "cleanups s = [filepath vi]"
      and "snapshots s = (SizeCheck, d1) # map (\<lambda>(e, d'). (Compressing, d')) t @
             [(Finished, d2(filepath vi := None))]"
  | (compressed) vi d1 d2 t s5 where "download_video ydl d0 url = (Some vi, d1)"
      and "filesize vi > MAX_FILE_SIZE cfg" and "ENABLE_COMPRESSION cfg"
      and "compress_video probe run d1 (filepath vi) (MAX_FILE_SIZE cfg)
             (MAX_COMPRESSION_ATTEMPTS cfg) = (Inr (Some (output_path_of (filepath vi))), d2, t)"
      and "upload dc (output_path_of (filepath vi)) (title vi) s5 = (oc, s)"
      and "disk s5 = d2(filepath vi := None)" and "replies s5 = []"
      and "cleanups s5 = [filepath vi]"
      and "snapshots s5 = (SizeCheck, d1) # map (\<lambda>(e, d'). (Compressing, d')) t"
proof -
  let ?s0 = "\<lparr>disk = d0, replies = [], reactions = [], cleanups = [], snapshots = []\<rparr>"
  obtain r1 s1 where a1: "try_reaction dc ReactDownloading ''downloading'' ?s0 = (r1, s1)"
    by (cases "try_reaction dc ReactDownloading ''downloading'' ?s0") auto
  from try_reaction_state [OF a1]
  have s1: "disk s1 = d0" "replies s1 = []" "cleanups s1 = []" "snapshots s1 = []" by simp_all
  show thesis
  proof (cases r1)
    case (Some e)
    with P a1 have "oc = Escaped e" "s = s1" by (simp_all add: process_video_url_def)
    with s1 show thesis by (intro escaped_first [of e]) simp_all
  next
    case r1: None
    obtain dl d1 where a2: "download_video ydl d0 url = (dl, d1)"
      by (cases "download_video ydl d0 url") auto
    show thesis
    proof (cases dl)
      case None
      obtain r s' where h: "handle_download_error dc platform (s1\<lparr>disk := d1\<rparr>) = (r, s')"
        by (cases "handle_download_error dc platform (s1\<lparr>disk := d1\<rparr>)") auto
      from P a1 r1 a2 None h s1
      have r: "s = s'" "oc = (case r of None \<Rightarrow> DownloadFailed | Some e \<Rightarrow> Escaped e)"
        by (auto simp: process_video_url_def split: option.splits)
      from handle_download_error_state [OF h] s1 r None a2
      show thesis
        by (intro download_failed [of d1]) (auto split: option.splits)
    next
      case (Some vi)
      define s2 where "s2 = enter SizeCheck (s1\<lparr>disk := d1\<rparr>)"
      have s2: "disk s2 = d1" "replies s2 = []" "cleanups s2 = []"
        "snapshots s2 = [(SizeCheck, d1)]"
        using s1 by (simp_all add: s2_def enter_simps)
      have dl: "download_video ydl d0 url = (Some vi, d1)" using a2 Some by simp
      show thesis
      proof (cases "filesize vi > MAX_FILE_SIZE cfg")
        case False
        with P a1 r1 dl s1 have "upload dc (filepath vi) (title vi) s2 = (oc, s)"
          by (simp add: process_video_url_def s2_def Let_def)
        with dl False s2 show thesis by (intro direct [of vi d1 s2]) simp_all
      next
        case big: True
        show thesis
        proof (cases "ENABLE_COMPRESSION cfg")
          case False
          obtain r s' where h: "handle_file_too_large dc (filesize vi) s2 = (r, s')"
            by (cases "handle_file_too_large dc (filesize vi) s2") auto
          from P a1 r1 dl s1 big False h
          have r: "(oc, s) = (case r of Some e \<Rightarrow> (Escaped e, s')
                     | None \<Rightarrow> (TooLarge, enter Finished (do_cleanup (filepath vi) s')))"
            by (simp add: process_video_url_def s2_def Let_def)
          note hs = handle_file_too_large_state [OF h]
          show thesis
          proof (cases r)
            case None
            with r hs s2 have "oc = TooLarge" "replies s = [TooLargeText (filesize vi)]"
              "disk s = d1(filepath vi := None)" "cleanups s = [filepath vi]"
              "snapshots s = [(SizeCheck, d1), (Finished, d1(filepath vi := None))]"
              by (simp_all add: enter_simps do_cleanup_simps)
            with dl big False show thesis by (intro too_large [of vi d1]) simp_all
          next
            case (Some e)
            with r hs s2 have "oc = Escaped e" "disk s = d1" "cleanups s = []"
              "snapshots s = [(SizeCheck, d1)]" by simp_all
            with dl big show thesis by (intro escaped_before_compression [of vi d1 e]) simp_all
          qed
        next
          case en: True
          obtain r3 s3 where a3: "try_reaction dc ReactCompressing ''compressing'' s2 = (r3, s3)"
            by (cases "try_reaction dc ReactCompressing ''compressing'' s2") auto
          from try_reaction_state [OF a3] s2
          have s3: "disk s3 = d1" "replies s3 = []" "cleanups s3 = []"
            "snapshots s3 = [(SizeCheck, d1)]" by simp_all
          show thesis
          proof (cases r3)
            case (Some e)
            with P a1 r1 dl s1 big en a3 have "oc = Escaped e" "s = s3"
              by (simp_all add: process_video_url_def s2_def Let_def)
            with s3 dl big show thesis by (intro escaped_before_compression [of vi d1 e]) simp_all
          next
            case r3: None
            obtain res d2 t where c: "compress_video probe run d1 (filepath vi) (MAX_FILE_SIZE cfg)
               (MAX_COMPRESSION_ATTEMPTS cfg) = (res, d2, t)"
              by (cases "compress_video probe run d1 (filepath vi) (MAX_FILE_SIZE cfg)
               (MAX_COMPRESSION_ATTEMPTS cfg)") auto
            define s4 where "s4 = record_compression t d2 s3"
            have s4: "disk s4 = d2" "replies s4 = []" "cleanups s4 = []"
              "snapshots s4 = (SizeCheck, d1) # map (\<lambda>(e, d'). (Compressing, d')) t"
              using s3 by (simp_all add: s4_def record_compression_simps)
            note pre = P a1 r1 dl s1 big en a3 r3 c s3(1)
            show thesis
            proof (cases res)
              case (Inl e)
              with pre have "oc = Escaped e" "s = s4"
                by (simp_all add: process_video_url_def s2_def s4_def Let_def)
              with s4 have "oc = Escaped e" "disk s = d2" "cleanups s = []"
                "snapshots s = (SizeCheck, d1) # map (\<lambda>(e, d'). (Compressing, d')) t"
                by simp_all
              with dl big en c Inl show thesis
                by (intro escaped_after_compression [of vi d1 res d2 t e]) simp_all
            next
              case (Inr cpo)
              show thesis
              proof (cases cpo)
                case None
                obtain r s' where h: "handle_compression_failed dc (filesize vi) s4 = (r, s')"
                  by (cases "handle_compression_failed dc (filesize vi) s4") auto
                note hs = handle_compression_failed_state [OF h]
                show thesis
                proof (cases r)
                  case rn: None
                  with pre Inr None h
                  have "oc = CompressionFailed" "s = enter Finished (do_cleanup (filepath vi) s')"
                    by (simp_all add: process_video_url_def s2_def s4_def Let_def)
                  with hs s4 rn
                  have "oc = CompressionFailed" "replies s = [CompressionFailedText (filesize vi)]"
                    "disk s = d2(filepath vi := None)" "cleanups s = [filepath vi]"
                    "snapshots s = (SizeCheck, d1) # map (\<lambda>(e, d'). (Compressing, d')) t @
                       [(Finished, d2(filepath vi := None))]"
                    by (simp_all add: enter_simps do_cleanup_simps)
                  with dl big en c Inr None show thesis
                    by (intro compression_failed [of vi d1 d2 t]) simp_all
                next
                  case (Some e)
                  with pre Inr None h
                  have "oc = Escaped e" "s = s'"
                    by (simp_all add: process_video_url_def s2_def s4_def Let_def)
                  with hs s4
                  have "oc = Escaped e" "disk s = d2" "cleanups s = []"
                    "snapshots s = (SizeCheck, d1) # map (\<lambda>(e, d'). (Compressing, d')) t"
                    by simp_all
                  with dl big en c Inr None show thesis
                    by (intro escaped_after_compression [of vi d1 res d2 t e]) simp_all
                qed
              next
                case (Some cp)
                from compress_video_found [OF c [unfolded Inr Some]]
                obtain f where cp: "cp = output_path_of (filepath vi)" and f: "d2 cp = Some f"
                  by blast
                have ne: "cp \<noteq> []" "cp \<noteq> filepath vi"
                  using cp output_path_of_nonempty output_path_of_neq by simp_all
                define s5 where "s5 = do_cleanup (filepath vi) s4"
                have s5: "disk s5 = d2(filepath vi := None)" "replies s5 = []"
                  "cleanups s5 = [filepath vi]"
                  "snapshots s5 = (SizeCheck, d1) # map (\<lambda>(e, d'). (Compressing, d')) t"
                  using s4 by (simp_all add: s5_def do_cleanup_simps)
                from s5(1) f ne have "disk s5 cp = Some f" by simp
                with pre Inr Some ne have "upload dc cp (title vi) s5 = (oc, s)"
                  by (simp add: process_video_url_def s2_def s4_def s5_def Let_def)
                with dl big en c Inr Some cp s5 show thesis
                  by (intro compressed [of vi d1 d2 t s5]) simp_all
              qed
            qed
          qed
        qed
      qed
    qed
  qed
qed

section \<open>Properties of the pipeline\<close>

lemma sample_webm_ext:
  "snd (splitext sample_webm) = py ''.webm''" "snd (splitext (py ''clip.mp4'')) = py ''.mp4''"
  by (simp_all add: sample_webm_def splitext_def rfind_def py_def)

lemma config_values:
  "MAX_FILE_SIZE config = 8388608" "ENABLE_COMPRESSION config"
  "MAX_COMPRESSION_ATTEMPTS config = 3"
  by (simp_all add: config_def)

lemma run_webm:
  "process_video_url config discord_ok ydl_webm probe run Map.empty sample_url sample_platform =
     (Delivered,
      \<lparr>disk = Map.empty, replies = [Attachment (py ''clip.mp4'') (File 1000000 1)],
       reactions = [''downloading'', ''success''], cleanups = [sample_webm],
       snapshots = [(SizeCheck, Map.empty(sample_webm \<mapsto> File 1000000 1)),
                    (Uploading, Map.empty(sample_webm \<mapsto> File 1000000 1)),
                    (Finished, Map.empty)]\<rparr>)"
  by (simp add: process_video_url_def try_reaction_eq discord_ok_def download_video_def
      ydl_webm_def config_values upload_eq enter_def do_cleanup_def cleanup_file_eq py_def)

lemma run_marker_fails:
  "process_video_url config discord_marker_fails ydl_small probe run Map.empty sample_url
     sample_platform =
     (UploadFailed,
      \<lparr>disk = Map.empty,
       replies = [Attachment (py ''clip.mp4'') (File 1000000 1), UploadFailedText],
       reactions = [''downloading'', ''failed''], cleanups = [sample_input],
       snapshots = [(SizeCheck, Map.empty(sample_input \<mapsto> File 1000000 1)),
                    (Uploading, Map.empty(sample_input \<mapsto> File 1000000 1)),
                    (Finished, Map.empty)]\<rparr>)"
  by (simp add: process_video_url_def try_reaction_eq discord_marker_fails_def download_video_def
      ydl_small_def config_values upload_eq enter_def do_cleanup_def cleanup_file_eq py_def
      upload_except_def upload_http_error_def reply_def)

text \<open>
  C2. The success reaction is added inside the \<open>try\<close> of the upload and only
  \<open>Forbidden\<close> is caught around it. When the file has been sent and the
  reaction then fails with another \<open>HTTPException\<close>, the \<open>except\<close> clause
  of the upload sends a second reply: the invocation ends with one cleanup but
  two notifications, not exactly one.
\<close>

theorem marker_failure_sends_two_replies:
  "fst (process_video_url config discord_marker_fails ydl_small sample_probe run_never_fits
          Map.empty sample_url sample_platform) = UploadFailed \<and>
   replies (snd (process_video_url config discord_marker_fails ydl_small sample_probe
          run_never_fits Map.empty sample_url sample_platform)) =
     [Attachment (py ''clip.mp4'') (File 1000000 1), UploadFailedText] \<and>
   cleanups (snd (process_video_url config discord_marker_fails ydl_small sample_probe
          run_never_fits Map.empty sample_url sample_platform)) = [sample_input]"
  by (simp add: run_marker_fails)

text \<open>
  C9, as stated, fails: a small WebM download titled \<open>clip\<close> is delivered under
  the name \<open>clip.mp4\<close>, whose extension is not that of the delivered file.
\<close>

theorem attachment_extension_not_preserved:
  "fst (process_video_url config discord_ok ydl_webm sample_probe run_never_fits
          Map.empty sample_url sample_platform) = Delivered \<and>
   replies (snd (process_video_url config discord_ok ydl_webm sample_probe run_never_fits
          Map.empty sample_url sample_platform)) =
     [Attachment (py ''clip.mp4'') (File 1000000 1)] \<and>
   snd (splitext (py ''clip.mp4'')) \<noteq> snd (splitext sample_webm)"
  by (simp add: run_webm sample_webm_ext, simp add: py_def)

text \<open>
  C9, amended. For every Delivered outcome the single reply is an attachment
  whose name is the first 50 characters of the title followed by the fixed
  suffix \<open>.mp4\<close>, whatever the extension of the delivered file; the attached
  file is within the size limit.
\<close>

theorem delivered_filename:
  assumes "process_video_url cfg dc ydl probe run d0 url platform = (Delivered, s)"
  shows "\<exists>vi d1 f. download_video ydl d0 url = (Some vi, d1) \<and>
           replies s = [Attachment (take 50 (title vi) @ py ''.mp4'') f] \<and>
           length (take 50 (title vi)) \<le> 50 \<and>
           int (fsize f) \<le> MAX_FILE_SIZE cfg"
  using assms
proof (cases rule: process_cases)
  case (direct vi d1 s2)
  from upload_delivered [OF direct(3)] direct(4,5) obtain f
    where f: "d1 (filepath vi) = Some f"
      and r: "replies s = [Attachment (take 50 (title vi) @ py ''.mp4'') f]" by auto
  from download_video_some [OF direct(1)] f direct(2) have "int (fsize f) \<le> MAX_FILE_SIZE cfg"
    by auto
  with direct(1) r show ?thesis by auto
next
  case (compressed vi d1 d2 t s5)
  let ?out = "output_path_of (filepath vi)"
  from upload_delivered [OF compressed(5)] compressed(6,7) obtain f
    where f: "(d2(filepath vi := None)) ?out = Some f"
      and r: "replies s = [Attachment (take 50 (title vi) @ py ''.mp4'') f]" by auto
  from compress_video_found [OF compressed(4)] obtain f'
    where f': "d2 ?out = Some f'" "int (fsize f') \<le> MAX_FILE_SIZE cfg" by blast
  from f f' output_path_of_neq [of "filepath vi"] have "f = f'" by simp
  with compressed(1) r f' show ?thesis by auto
qed auto

theorem delivered_filename_witness:
  "(case process_video_url config discord_ok ydl_webm sample_probe run_never_fits
          Map.empty sample_url sample_platform of
      (oc, s) \<Rightarrow> oc = Delivered \<and> replies s = [Attachment (py ''clip.mp4'') (File 1000000 1)])"
proof -
  have X: "process_video_url config discord_ok ydl_webm sample_probe run_never_fits
          Map.empty sample_url sample_platform =
     (Delivered,
      \<lparr>disk = Map.empty, replies = [Attachment (py ''clip.mp4'') (File 1000000 1)],
       reactions = [''downloading'', ''success''], cleanups = [sample_webm],
       snapshots = [(SizeCheck, Map.empty(sample_webm \<mapsto> File 1000000 1)),
                    (Uploading, Map.empty(sample_webm \<mapsto> File 1000000 1)),
                    (Finished, Map.empty)]\<rparr>)"
    by (rule run_webm)
  from delivered_filename [OF X] show ?thesis
    unfolding X by (simp add: download_video_def ydl_webm_def py_def)
qed

lemma compressing_snapshots:
  assumes "compress_video probe run d1 fp tgt m = (res, d2, t)"
    and "(ph, d) \<in> set (map (\<lambda>(e, d'). (Compressing, d')) t)"
  shows "ph = Compressing" and "p \<noteq> output_path_of fp \<Longrightarrow> d p = d1 p"
proof -
  from assms(2) obtain e where e: "(e, d) \<in> set t" and ph: "ph = Compressing" by auto
  show "ph = Compressing" by (rule ph)
  from compress_video_footprint [OF assms(1)] e
  show "p \<noteq> output_path_of fp \<Longrightarrow> d p = d1 p" by blast
qed

text \<open>
  C8. Let the download have produced the file at \<open>filepath\<close>, with no stale file
  at the candidate path derived from it. Then, in every state of the disk the
  invocation passes through, only \<open>filepath\<close> and the candidate path can differ
  from the disk after the download, and outside the compression phase at most
  one of the two holds a file. Every encode attempt reads \<open>filepath\<close> and
  writes the same candidate path. When the upload phase is entered after a
  compression, the state that directly follows the states of the compression is
  the disk \<open>compress_video\<close> returned with the original removed.
\<close>

theorem one_asset_outside_compression:
  assumes "process_video_url cfg dc ydl probe run d0 url platform = (oc, s)"
    and "download_video ydl d0 url = (Some vi, d1)"
    and "d1 (output_path_of (filepath vi)) = None"
  shows "(\<forall>(ph, d) \<in> set (snapshots s).
            (\<forall>p. p \<noteq> filepath vi \<and> p \<noteq> output_path_of (filepath vi) \<longrightarrow> d p = d1 p) \<and>
            (ph \<noteq> Compressing \<longrightarrow>
               d (filepath vi) = None \<or> d (output_path_of (filepath vi)) = None)) \<and>
         (\<forall>res d2 t k i out l.
            compress_video probe run d1 (filepath vi) (MAX_FILE_SIZE cfg)
              (MAX_COMPRESSION_ATTEMPTS cfg) = (res, d2, t) \<and>
            FfmpegRun k i out l \<in> fst ` set t \<longrightarrow>
            i = filepath vi \<and> out = output_path_of (filepath vi)) \<and>
         (filesize vi > MAX_FILE_SIZE cfg \<and> Uploading \<in> fst ` set (snapshots s) \<longrightarrow>
            (\<exists>d2 t.
               compress_video probe run d1 (filepath vi) (MAX_FILE_SIZE cfg)
                 (MAX_COMPRESSION_ATTEMPTS cfg) = (Inr (Some (output_path_of (filepath vi))), d2, t) \<and>
               snapshots s =
                 (SizeCheck, d1) # map (\<lambda>(e, d'). (Compressing, d')) t @
                 [(Uploading, d2(filepath vi := None)),
                  (Finished, d2(filepath vi := None, output_path_of (filepath vi) := None))]))"
    (is "?frame \<and> ?paths \<and> ?imm")
proof -
  let ?fp = "filepath vi" and ?out = "output_path_of (filepath vi)"
  define ok where "ok = (\<lambda>ph d. (\<forall>p. p \<noteq> ?fp \<and> p \<noteq> ?out \<longrightarrow> d p = d1 p) \<and>
               (ph \<noteq> Compressing \<longrightarrow> d ?fp = None \<or> d ?out = None))"
  have frame_iff: "?frame \<longleftrightarrow> (\<forall>x \<in> set (snapshots s). ok (fst x) (snd x))"
    by (auto simp: ok_def)
  have paths: ?paths
  proof (intro allI impI, elim conjE)
    fix res d2 t k i out l
    assume "compress_video probe run d1 ?fp (MAX_FILE_SIZE cfg)
              (MAX_COMPRESSION_ATTEMPTS cfg) = (res, d2, t)"
      and "FfmpegRun k i out l \<in> fst ` set t"
    with compress_video_footprint [of probe run d1 ?fp "MAX_FILE_SIZE cfg"
        "MAX_COMPRESSION_ATTEMPTS cfg" res d2 t]
    show "i = ?fp \<and> out = ?out" by blast
  qed
  have ok1: "ok SizeCheck d1" "ok Uploading d1" using assms(3) by (simp_all add: ok_def)
  have ok_rm: "ok ph (d1(?fp := None))" for ph by (simp add: ok_def)
  have ok_comp: "\<forall>x \<in> set (map (\<lambda>(e, d'). (Compressing, d')) t). ok (fst x) (snd x)"
    if c: "compress_video probe run d1 ?fp tgt m = (res, d2, t)" for res d2 t tgt m
  proof
    fix x assume "x \<in> set (map (\<lambda>(e, d'). (Compressing, d')) t)"
    then have x: "(fst x, snd x) \<in> set (map (\<lambda>(e, d'). (Compressing, d')) t)" by simp
    from compressing_snapshots [OF c x] show "ok (fst x) (snd x)" by (simp add: ok_def)
  qed
  have ok_d2: "ok ph (d2(?fp := None))" and ok_d2': "ok ph (d2(?fp := None, ?out := None))"
    if "compress_video probe run d1 ?fp tgt m = (res, d2, t)" for res d2 t tgt m ph
    using compress_video_footprint [OF that] by (simp_all add: ok_def)
  have "(\<forall>x \<in> set (snapshots s). ok (fst x) (snd x)) \<and> ?imm"
    using assms(1)
  proof (cases rule: process_cases)
    case (escaped_first e)
    then show ?thesis by simp
  next
    case (download_failed d1')
    then show ?thesis by simp
  next
    case (direct vi' d1' s2)
    with assms(2) have eq: "vi' = vi" "d1' = d1" by simp_all
    from upload_state(3) [OF direct(3)] direct(4,7) eq
    have sn: "snapshots s = [(SizeCheck, d1), (Uploading, d1), (Finished, d1(?fp := None))]"
      by simp
    from direct(2) eq have "\<not> filesize vi > MAX_FILE_SIZE cfg" by simp
    with ok1 ok_rm show ?thesis unfolding sn by simp
  next
    case (too_large vi' d1')
    with assms(2) have eq: "vi' = vi" "d1' = d1" by simp_all
    from too_large(8) eq
    have sn: "snapshots s = [(SizeCheck, d1), (Finished, d1(?fp := None))]" by simp
    from ok1 ok_rm show ?thesis unfolding sn by simp
  next
    case (escaped_before_compression vi' d1' e)
    with assms(2) have eq: "vi' = vi" "d1' = d1" by simp_all
    from escaped_before_compression(6) eq have sn: "snapshots s = [(SizeCheck, d1)]" by simp
    from ok1 show ?thesis unfolding sn by simp
  next
    case (escaped_after_compression vi' d1' e res d2 t)
    with assms(2) have eq: "vi' = vi" "d1' = d1" by simp_all
    note c = escaped_after_compression(4) [unfolded eq]
    from escaped_after_compression(9) eq
    have sn: "snapshots s = (SizeCheck, d1) # map (\<lambda>(e, d'). (Compressing, d')) t" by simp
    have nu: "Uploading \<notin> fst ` set (snapshots s)" unfolding sn by auto
    have "\<forall>x \<in> set (snapshots s). ok (fst x) (snd x)"
      unfolding sn using ok1 ok_comp [OF c] by (simp del: set_map)
    with nu show ?thesis by simp
  next
    case (compression_failed vi' d1' d2 t)
    with assms(2) have eq: "vi' = vi" "d1' = d1" by simp_all
    note c = compression_failed(4) [unfolded eq]
    from compression_failed(9) eq
    have sn: "snapshots s = (SizeCheck, d1) # map (\<lambda>(e, d'). (Compressing, d')) t @
       [(Finished, d2(?fp := None))]" by simp
    have nu: "Uploading \<notin> fst ` set (snapshots s)" unfolding sn by auto
    have "\<forall>x \<in> set (snapshots s). ok (fst x) (snd x)"
      unfolding sn using ok1 ok_comp [OF c] ok_d2 [OF c] by (simp del: set_map)
    with nu show ?thesis by simp
  next
    case (compressed vi' d1' d2 t s5)
    with assms(2) have eq: "vi' = vi" "d1' = d1" by simp_all
    note c = compressed(4) [unfolded eq]
    from upload_state(3) [OF compressed(5)] compressed(6,9) eq
    have sn: "snapshots s = (SizeCheck, d1) # map (\<lambda>(e, d'). (Compressing, d')) t @
       [(Uploading, d2(?fp := None)), (Finished, d2(?fp := None, ?out := None))]" by simp
    have "\<forall>x \<in> set (snapshots s). ok (fst x) (snd x)"
      unfolding sn using ok1 ok_comp [OF c] ok_d2 [OF c] ok_d2' [OF c] by (simp del: set_map)
    moreover have "\<exists>d2 t. compress_video probe run d1 ?fp (MAX_FILE_SIZE cfg)
                 (MAX_COMPRESSION_ATTEMPTS cfg) = (Inr (Some ?out), d2, t) \<and>
               snapshots s =
                 (SizeCheck, d1) # map (\<lambda>(e, d'). (Compressing, d')) t @
                 [(Uploading, d2(?fp := None)), (Finished, d2(?fp := None, ?out := None))]"
      using c sn by blast
    ultimately show ?thesis by simp
  qed
  with paths frame_iff show ?thesis by simp
qed

lemma run_large:
  assumes "compress_video sample_probe run_second_fits sample_disk sample_input 8388608 3 =
             (res, d', t)"
  shows "process_video_url config discord_ok ydl_large sample_probe run_second_fits Map.empty
           sample_url sample_platform =
     (Delivered,
      \<lparr>disk = d'(sample_input := None, sample_output := None),
       replies = [Attachment (py ''clip.mp4'') (File 7000000 3)],
       reactions = [''downloading'', ''compressing'', ''success''],
       cleanups = [sample_input, sample_output],
       snapshots = (SizeCheck, sample_disk) # map (\<lambda>(e, d'). (Compressing, d')) t @
                    [(Uploading, d'(sample_input := None)),
                     (Finished, d'(sample_input := None, sample_output := None))]\<rparr>)"
proof -
  from sample_run_fits_result [OF assms]
  have r: "res = Inr (Some sample_output)" "d' sample_output = Some (File 7000000 3)" by simp_all
  have dl: "download_video ydl_large Map.empty sample_url =
     (Some \<lparr>filepath = sample_input, filesize = 20971520, title = py ''clip''\<rparr>, sample_disk)"
    by (simp add: download_video_def ydl_large_def sample_disk_def)
  have so: "sample_output \<noteq> []" by (simp add: sample_output_def py_def)
  have t50: "take 50 (py ''clip'') @ py ''.mp4'' = py ''clip.mp4''" by (simp add: py_def)
  show ?thesis
    using assms r sample_paths_neq so
    by (simp add: process_video_url_def try_reaction_eq discord_ok_def dl config_values
        upload_eq enter_def do_cleanup_def cleanup_file_eq record_compression_def t50)
qed

theorem one_asset_outside_compression_witness:
  "(case process_video_url config discord_ok ydl_large sample_probe run_second_fits Map.empty
           sample_url sample_platform of
      (oc, s) \<Rightarrow>
        download_video ydl_large Map.empty sample_url =
          (Some \<lparr>filepath = sample_input, filesize = 20971520, title = py ''clip''\<rparr>, sample_disk) \<and>
        sample_disk (output_path_of sample_input) = None \<and>
        oc = Delivered \<and>
        map fst (snapshots s) =
          [SizeCheck, Compressing, Compressing, Compressing, Compressing, Compressing,
           Uploading, Finished] \<and>
        filter (\<lambda>(ph, d). ph \<noteq> Compressing \<and> d sample_input \<noteq> None \<and> d sample_output \<noteq> None)
          (snapshots s) = [])"
proof -
  obtain res d' t where X:
    "compress_video sample_probe run_second_fits sample_disk sample_input 8388608 3 = (res, d', t)"
    by (cases "compress_video sample_probe run_second_fits sample_disk sample_input 8388608 3") auto
  define s where "s = snd (process_video_url config discord_ok ydl_large sample_probe
     run_second_fits Map.empty sample_url sample_platform)"
  have P: "process_video_url config discord_ok ydl_large sample_probe run_second_fits Map.empty
     sample_url sample_platform = (Delivered, s)"
    unfolding s_def by (simp add: run_large [OF X])
  have sn: "snapshots s = (SizeCheck, sample_disk) # map (\<lambda>(e, d'). (Compressing, d')) t @
                    [(Uploading, d'(sample_input := None)),
                     (Finished, d'(sample_input := None, sample_output := None))]"
    unfolding s_def by (simp add: run_large [OF X])
  let ?vi = "\<lparr>filepath = sample_input, filesize = 20971520, title = py ''clip''\<rparr>"
  have dl: "download_video ydl_large Map.empty sample_url = (Some ?vi, sample_disk)"
    by (simp add: download_video_def ydl_large_def sample_disk_def)
  have free: "sample_disk (output_path_of sample_input) = None"
    using sample_paths_neq by (simp add: sample_output_eq sample_disk_def)
  then have free': "sample_disk (output_path_of (filepath ?vi)) = None" by simp
  have "length (map fst t) = 5" using sample_run_fits_result [OF X] by simp
  then have "length t = Suc (Suc (Suc (Suc (Suc 0))))" by simp
  then obtain a b c d e where "t = [a, b, c, d, e]"
    by (auto simp: length_Suc_conv)
  then have "map fst (map (\<lambda>(e, d'). (Compressing, d')) t) =
      [Compressing, Compressing, Compressing, Compressing, Compressing]"
    by (auto split: prod.splits)
  then have phases: "map fst (snapshots s) =
          [SizeCheck, Compressing, Compressing, Compressing, Compressing, Compressing,
           Uploading, Finished]"
    unfolding sn by simp
  note T = one_asset_outside_compression [OF P dl free', THEN conjunct1]
  have ok: "fst x = Compressing \<or> snd x sample_input = None \<or> snd x sample_output = None"
    if mem: "x \<in> set (snapshots s)" for x
  proof -
    from bspec [OF T mem]
    have "fst x \<noteq> Compressing \<longrightarrow>
        snd x (filepath ?vi) = None \<or> snd x (output_path_of (filepath ?vi)) = None"
      by (simp add: case_prod_beta)
    then show ?thesis by (auto simp: sample_output_eq)
  qed
  have "filter (\<lambda>(ph, d). ph \<noteq> Compressing \<and> d sample_input \<noteq> None \<and> d sample_output \<noteq> None)
      (snapshots s) = []"
    unfolding filter_empty_conv using ok by (auto simp: case_prod_beta)
  with dl free phases show ?thesis
    unfolding P by simp
qed

lemma upload_except_outcome:
  assumes "upload_except dc e s = (oc, s')"
  shows "oc = UploadFailed \<or> (\<exists>e'. oc = Escaped e')"
  using assms
  by (auto simp: upload_except_def upload_http_error_def upload_unexpected_def reply_def
      try_reaction_eq split: option.splits if_splits)

lemma upload_outcome:
  assumes "upload dc fp ttl s0 = (oc, s)"
  shows "oc = Delivered \<or> oc = UploadFailed \<or> (\<exists>e. oc = Escaped e)"
proof -
  obtain oc' s3 where "oc = oc'"
    and "oc' = Delivered \<or> (\<exists>e s1. upload_except dc e s1 = (oc', s3))"
    using assms by (auto simp: upload_eq split: option.splits if_splits prod.splits)
  with upload_except_outcome show ?thesis by blast
qed

text \<open>
  Apart from the failing success marker, every invocation that ends in one of
  the five outcomes sends exactly one reply and hands each asset to
  \<open>cleanup_file\<close> exactly once: the download alone, or the download and then
  the compressed file; no cleaned path holds a file afterwards.
\<close>

lemma one_notification_one_cleanup:
  assumes "process_video_url cfg dc ydl probe run d0 url platform = (oc, s)"
    and "dc ReactSuccess = None \<or> dc ReactSuccess = Some Forbidden"
    and "oc = Delivered \<or> oc = DownloadFailed \<or> oc = TooLarge \<or> oc = CompressionFailed \<or>
         oc = UploadFailed"
  shows "length (replies s) = 1 \<and> distinct (cleanups s) \<and>
         (\<forall>p \<in> set (cleanups s). disk s p = None) \<and>
         (if oc = DownloadFailed then cleanups s = []
          else \<exists>vi d1. download_video ydl d0 url = (Some vi, d1) \<and>
                 (cleanups s = [filepath vi] \<or>
                  cleanups s = [filepath vi, output_path_of (filepath vi)]))"
  using assms(1)
proof (cases rule: process_cases)
  case (escaped_first e)
  with assms(3) show ?thesis by simp
next
  case (download_failed d1)
  with assms(3) show ?thesis by auto
next
  case (direct vi d1 s2)
  from upload_state [OF direct(3)] direct(4,6)
  have c: "cleanups s = [filepath vi]" "disk s (filepath vi) = None" by simp_all
  have oc: "oc \<noteq> DownloadFailed" "oc = Delivered \<or> oc = UploadFailed"
    using assms(3) upload_outcome [OF direct(3)] by auto
  from upload_one_reply [OF direct(3) assms(2) oc(2)] direct(5)
  have "length (replies s) = 1" by simp
  with c oc direct(1) show ?thesis by auto
next
  case (too_large vi d1)
  then show ?thesis by auto
next
  case (escaped_before_compression vi d1 e)
  with assms(3) show ?thesis by simp
next
  case (escaped_after_compression vi d1 e res d2 t)
  with assms(3) show ?thesis by simp
next
  case (compression_failed vi d1 d2 t)
  then show ?thesis by auto
next
  case (compressed vi d1 d2 t s5)
  let ?out = "output_path_of (filepath vi)"
  from upload_state [OF compressed(5)] compressed(6,8)
  have c: "cleanups s = [filepath vi, ?out]" "disk s (filepath vi) = None" "disk s ?out = None"
    using output_path_of_neq [of "filepath vi"] by simp_all
  have oc: "oc \<noteq> DownloadFailed" "oc = Delivered \<or> oc = UploadFailed"
    using assms(3) upload_outcome [OF compressed(5)] by auto
  from upload_one_reply [OF compressed(5) assms(2) oc(2)] compressed(7)
  have "length (replies s) = 1" by simp
  with c oc compressed(1) output_path_of_neq [of "filepath vi"] show ?thesis by auto
qed


text \<open>
  The two neighbours of the zero duration: a missing duration is a probe failure
  and gives \<open>None\<close>; in the pipeline the escaping \<open>ZeroDivisionError\<close> skips
  both the reply and the cleanup, so the download stays on disk.
\<close>

lemma missing_duration_returns_none:
  "compress_video (\<lambda>p. Some \<lparr>duration_field = None, size_field = sz\<rparr>) run d inp tgt m =
     (Inr None, d, [(LogProbeFailed, d)])"
  by (simp add: compress_video_def)

lemma zero_duration_in_pipeline:
  "process_video_url config discord_ok ydl_large
     (\<lambda>p. Some \<lparr>duration_field = Some 0, size_field = Some 20971520\<rparr>) run Map.empty
     sample_url sample_platform =
     (Escaped ZeroDivisionError,
      \<lparr>disk = sample_disk, replies = [], reactions = [''downloading'', ''compressing''],
       cleanups = [], snapshots = [(SizeCheck, sample_disk)]\<rparr>)"
proof -
  have dl: "download_video ydl_large Map.empty sample_url =
     (Some \<lparr>filepath = sample_input, filesize = 20971520, title = py ''clip''\<rparr>, sample_disk)"
    by (simp add: download_video_def ydl_large_def sample_disk_def)
  show ?thesis
    by (simp add: process_video_url_def try_reaction_eq discord_ok_def dl config_values
        enter_def record_compression_def compress_video_def target_bitrate_def)
qed

end
